theory Spec2Isabelle
  imports Main "HOL-Library.Sublist"
begin

section \<open>Strings as the script uses them\<close>

text \<open>
  The script is \<^verbatim>\<open>read_emails2.py\<close>. Its strings are Python \<^verbatim>\<open>str\<close> values. A
  character of the model is a code point below 256, so a \<^typ>\<open>string\<close> stands for a
  Python string over that range; the string methods the script calls are written out
  below for this range.
\<close>

text \<open>\<^verbatim>\<open>str.lower()\<close>: the upper-case letters below 256 are A to Z and the
  code points 192 to 222 but 215; each lies 32 below its lower-case letter.\<close>

definition lower_char :: "char \<Rightarrow> char" where
  "lower_char c =
     (let n = (of_char c :: nat)
      in if (65 \<le> n \<and> n \<le> 90) \<or> (192 \<le> n \<and> n \<le> 222 \<and> n \<noteq> 215)
         then char_of (n + 32) else c)"

definition lower :: "string \<Rightarrow> string" where
  "lower s = map lower_char s"

text \<open>\<^verbatim>\<open>str.strip()\<close> removes leading and trailing white space: below 256 these
  are the code points 9 to 13, 28 to 32, 133 and 160.\<close>

definition isspace :: "char \<Rightarrow> bool" where
  "isspace c =
     (let n = (of_char c :: nat)
      in (9 \<le> n \<and> n \<le> 13) \<or> (28 \<le> n \<and> n \<le> 32) \<or> n = 133 \<or> n = 160)"

definition strip :: "string \<Rightarrow> string" where
  "strip s = rev (dropWhile isspace (rev (dropWhile isspace s)))"

text \<open>\<^verbatim>\<open>s.split(',')\<close>: the pieces between the commas, empty pieces kept; the
  result is never empty.\<close>

fun split_comma :: "string \<Rightarrow> string list" where
  "split_comma [] = [[]]"
| "split_comma (c # cs) =
     (if c = CHR '','' then [] # split_comma cs
      else (let r = split_comma cs in (c # hd r) # tl r))"

text \<open>\<^verbatim>\<open>s.endswith(suffix)\<close>.\<close>

definition endswith :: "string \<Rightarrow> string \<Rightarrow> bool" where
  "endswith s suf = (length suf \<le> length s \<and> drop (length s - length suf) s = suf)"

text \<open>\<^verbatim>\<open>file_name.replace("'", "\\'")\<close>: a backslash goes before every single
  quote. The quote is the code point 39, the backslash 92.\<close>

definition replace_quote :: "string \<Rightarrow> string" where
  "replace_quote s = concat (map (\<lambda>c. if c = CHR 0x27 then [CHR 0x5C, CHR 0x27] else [c]) s)"

text \<open>\<^verbatim>\<open>str(n)\<close> for a natural number, used by the f-strings and the date.\<close>

definition digit_char :: "nat \<Rightarrow> char" where
  "digit_char n = ''0123456789'' ! n"

fun show_nat :: "nat \<Rightarrow> string" where
  "show_nat n =
     (if n < 10 then [digit_char n]
      else show_nat (n div 10) @ [digit_char (n mod 10)])"

declare show_nat.simps [simp del]

section \<open>The attachment filter\<close>

text \<open>Lines 99 to 101: the allowed extensions, read from the value of
  \<^verbatim>\<open>ALLOWED_EXTENSIONS\<close> (the empty string when the variable is unset).\<close>

definition allowed_extensions :: "string \<Rightarrow> string list" where
  "allowed_extensions extensions_env =
     map (\<lambda>ext. lower (strip ext)) (filter (\<lambda>ext. strip ext \<noteq> []) (split_comma extensions_env))"

text \<open>Line 126: \<^verbatim>\<open>any(filename.lower().endswith(ext) for ext in allowed_extensions)\<close>.\<close>

definition extension_allowed :: "string \<Rightarrow> string list \<Rightarrow> bool" where
  "extension_allowed filename allowed = list_ex (\<lambda>ext. endswith (lower filename) ext) allowed"

section \<open>Exceptions, the two services and the world of a run\<close>

text \<open>An exception of the run. \<^verbatim>\<open>ServiceError\<close> stands for whatever a remote call or a
  library call raises (an HTTP error, a refused token, undecodable data).\<close>

datatype exn =
    KeyError string
  | TypeError string
  | FileNotFoundError string
  | ServiceError string

text \<open>\<^verbatim>\<open>str(e)\<close>, as the top-level handler prints it; a \<^verbatim>\<open>KeyError\<close> shows its key
  in quotes.\<close>

fun exn_str :: "exn \<Rightarrow> string" where
  "exn_str (KeyError k) = CHR 0x27 # k @ [CHR 0x27]"
| "exn_str (TypeError m) = m"
| "exn_str (FileNotFoundError m) = m"
| "exn_str (ServiceError m) = m"

type_synonym bytes = string

subsection \<open>What the mail service returns\<close>

text \<open>The JSON objects of the mail service, with a key that may be absent as an
  option: a part \<^verbatim>\<open>{filename, body: {attachmentId}}\<close>, a message
  \<^verbatim>\<open>{payload: {parts}}\<close>, a search result \<^verbatim>\<open>{messages: [{id}]}\<close>, an attachment
  \<^verbatim>\<open>{data}\<close>.\<close>

record part_body =
  body_attachmentId :: "string option"

record part =
  part_filename :: "string option"
  part_body :: "part_body option"

record payload =
  payload_parts :: "part list option"

record message =
  message_payload :: "payload option"

record summary =
  summary_id :: "string option"

record list_response =
  list_messages :: "summary list option"

record attachment =
  attachment_data :: "string option"

text \<open>The handle of the mail service: what each of the three requests of the script
  answers, or the exception it raises. The mailbox is only read.\<close>

record gmail_service =
  messages_list :: "string \<Rightarrow> exn + list_response"
  messages_get :: "string \<Rightarrow> exn + message"
  attachments_get :: "string \<Rightarrow> string \<Rightarrow> exn + attachment"

subsection \<open>The storage service\<close>

record drive_file =
  df_id :: string
  df_name :: string
  df_mimeType :: string
  df_parents :: "string list"
  df_trashed :: bool
  df_media :: "(bytes \<times> string) option"

text \<open>The \<^verbatim>\<open>body\<close> of a \<^verbatim>\<open>files().create\<close> request.\<close>

record file_metadata =
  meta_name :: string
  meta_mimeType :: "string option"
  meta_parents :: "string list option"

text \<open>The remote calls a run issues, in the order it issues them. A
  \<^verbatim>\<open>files().create\<close> carries its metadata and, for an upload, the media body (the
  bytes and their MIME type).\<close>

datatype call =
    GmailMessagesList string
  | GmailMessagesGet string
  | GmailAttachmentsGet string string
  | DriveFilesList string
  | DriveFilesCreate file_metadata "(bytes \<times> string) option"

subsection \<open>The world\<close>

text \<open>Everything a run reads or changes besides the mailbox: the process environment
  (after \<^verbatim>\<open>load_dotenv()\<close>), the month and year of the clock, the local files, the
  files of the storage service, the calls issued so far and the lines printed so far.
  \<^verbatim>\<open>drive_fault\<close> says which calls the storage service refuses (network, quota), and
  with what exception; \<^verbatim>\<open>write_fault\<close> says which paths cannot be opened for writing (a
  missing directory, no permission), and with what exception.\<close>

record world =
  environ :: "string \<Rightarrow> string option"
  now_month :: nat
  now_year :: nat
  fs :: "string \<Rightarrow> string option"
  write_fault :: "string \<Rightarrow> exn option"
  drive_files :: "drive_file list"
  drive_counter :: nat
  drive_fault :: "call \<Rightarrow> exn option"
  calls :: "call list"
  stdout :: "string list"

definition print :: "string \<Rightarrow> world \<Rightarrow> world" where
  "print line w = w\<lparr>stdout := stdout w @ [line]\<rparr>"

definition issue :: "call \<Rightarrow> world \<Rightarrow> world" where
  "issue c w = w\<lparr>calls := calls w @ [c]\<rparr>"

subsection \<open>How the storage service answers\<close>

text \<open>
  The script sends the storage service one kind of search,
  \<^verbatim>\<open>'P' in parents and name = 'N' and trashed = false\<close>. The service reads a string
  literal up to its closing quote; inside it a backslash stands before a quote or a
  backslash that belongs to the string (the escapes the query language of the service
  documents), and any other use of the backslash is refused.
  \<^verbatim>\<open>read_literal\<close> takes the text after the opening quote and gives the string and the
  text after the closing quote.
\<close>

fun read_literal :: "string \<Rightarrow> (string \<times> string) option" where
  "read_literal [] = None"
| "read_literal (c # cs) =
     (if c = CHR 0x27 then Some ([], cs)
      else if c = CHR 0x5C then
        (case cs of
           [] \<Rightarrow> None
         | d # ds \<Rightarrow>
             if d = CHR 0x27 \<or> d = CHR 0x5C
             then (case read_literal ds of
                     None \<Rightarrow> None
                   | Some (lit, rest) \<Rightarrow> Some (d # lit, rest))
             else None)
      else (case read_literal cs of
              None \<Rightarrow> None
            | Some (lit, rest) \<Rightarrow> Some (c # lit, rest)))"

definition strip_prefix :: "string \<Rightarrow> string \<Rightarrow> string option" where
  "strip_prefix p s = (if take (length p) s = p then Some (drop (length p) s) else None)"

text \<open>The parent and the name a search asks for; \<open>None\<close> for any text that is not a
  search of this one kind.\<close>

definition parse_query :: "string \<Rightarrow> (string \<times> string) option" where
  "parse_query q =
     (case strip_prefix [CHR 0x27] q of
        None \<Rightarrow> None
      | Some r0 \<Rightarrow>
          (case read_literal r0 of
             None \<Rightarrow> None
           | Some (parent, r1) \<Rightarrow>
               (case strip_prefix ('' in parents and name = '' @ [CHR 0x27]) r1 of
                  None \<Rightarrow> None
                | Some r2 \<Rightarrow>
                    (case read_literal r2 of
                       None \<Rightarrow> None
                     | Some (name, r3) \<Rightarrow>
                         if r3 = '' and trashed = false'' then Some (parent, name) else None))))"

text \<open>\<^verbatim>\<open>files().list(q=..., spaces='drive', fields="files(id, name)").execute()\<close>: the
  call is recorded; a refused call and a search the service cannot read raise; otherwise
  the answer lists id and name of the files in that parent, of that name, not trashed.\<close>

record files_response =
  response_files :: "(string \<times> string) list option"

definition drive_files_list :: "string \<Rightarrow> world \<Rightarrow> (exn + files_response) \<times> world" where
  "drive_files_list q w =
     (let w' = issue (DriveFilesList q) w
      in case drive_fault w (DriveFilesList q) of
           Some e \<Rightarrow> (Inl e, w')
         | None \<Rightarrow>
             (case parse_query q of
                None \<Rightarrow> (Inl (ServiceError ''Invalid Value''), w')
              | Some (parent, name) \<Rightarrow>
                  (Inr \<lparr>response_files = Some
                     (map (\<lambda>f. (df_id f, df_name f))
                        (filter (\<lambda>f. parent \<in> set (df_parents f) \<and> df_name f = name
                                      \<and> \<not> df_trashed f)
                           (drive_files w)))\<rparr>, w')))"

text \<open>\<^verbatim>\<open>files().create(body=..., media_body=..., fields='id').execute()\<close>: the call is
  recorded; unless the service refuses it, a new file with a new id is stored, in the
  given parents (the root when none is given), and its id is the answer. Nothing is
  looked up first: a name already in use is no obstacle.\<close>

definition drive_files_create ::
  "file_metadata \<Rightarrow> (bytes \<times> string) option \<Rightarrow> world \<Rightarrow> (exn + string) \<times> world" where
  "drive_files_create body media w =
     (let w' = issue (DriveFilesCreate body media) w
      in case drive_fault w (DriveFilesCreate body media) of
           Some e \<Rightarrow> (Inl e, w')
         | None \<Rightarrow>
             (let new_id = ''id'' @ show_nat (drive_counter w);
                  f = \<lparr>df_id = new_id,
                       df_name = meta_name body,
                       df_mimeType = (case meta_mimeType body of
                                          Some t \<Rightarrow> t
                                        | None \<Rightarrow> (case media of
                                                     Some (_, t) \<Rightarrow> t
                                                   | None \<Rightarrow> ''application/octet-stream'')),
                       df_parents = (case meta_parents body of
                                         Some ps \<Rightarrow> ps
                                       | None \<Rightarrow> [''root'']),
                       df_trashed = False,
                       df_media = media\<rparr>
              in (Inr new_id,
                  w'\<lparr>drive_files := drive_files w @ [f],
                     drive_counter := Suc (drive_counter w)\<rparr>)))"

section \<open>The script\<close>

subsection \<open>\<^verbatim>\<open>get_credentials\<close> (lines 21 to 51)\<close>

record credentials =
  cred_valid :: bool
  cred_expired :: bool
  cred_refresh_token :: "string option"
  cred_json :: string

text \<open>The identity provider and its library: reading credentials from the text of a
  token file, refreshing them, and the interactive flow started from the text of the
  client secret file.\<close>

record identity_provider =
  from_authorized_user_file :: "string \<Rightarrow> exn + credentials"
  refresh :: "credentials \<Rightarrow> exn + credentials"
  run_local_server :: "string \<Rightarrow> exn + credentials"

text \<open>The text of a local file, \<open>None\<close> when \<^verbatim>\<open>os.path.exists\<close> is false: for a
  path that names no file, and for the empty path.\<close>

definition read_file :: "world \<Rightarrow> string \<Rightarrow> string option" where
  "read_file w path = (if path = [] then None else fs w path)"

text \<open>Lines 48 and 49: \<^verbatim>\<open>open(token_file, 'w')\<close> and the write. The empty path cannot
  be opened, and \<^verbatim>\<open>open\<close> raises for every path the world refuses to write; then the
  files stay as they are.\<close>

definition write_file :: "string \<Rightarrow> string \<Rightarrow> world \<Rightarrow> (exn + unit) \<times> world" where
  "write_file path content w =
     (if path = []
      then (Inl (FileNotFoundError
                   (''[Errno 2] No such file or directory: '' @ [CHR 0x27, CHR 0x27])), w)
      else (case write_fault w path of
              Some e \<Rightarrow> (Inl e, w)
            | None \<Rightarrow> (Inr (), w\<lparr>fs := (fs w)(path \<mapsto> content)\<rparr>)))"

text \<open>Lines 30 to 32: the credentials of the token file, when the file exists.\<close>

definition load_token :: "identity_provider \<Rightarrow> world \<Rightarrow> string \<Rightarrow> exn + credentials option" where
  "load_token idp w token_file =
     (case read_file w token_file of
        None \<Rightarrow> Inr None
      | Some text \<Rightarrow>
          (case from_authorized_user_file idp text of
             Inl e \<Rightarrow> Inl e
           | Inr c \<Rightarrow> Inr (Some c)))"

text \<open>Lines 40 to 45: the interactive flow, which needs the client secret file.\<close>

definition oauth_flow :: "identity_provider \<Rightarrow> world \<Rightarrow> (exn + credentials) \<times> world" where
  "oauth_flow idp w =
     (let w1 = print ''Fetching new tokens via OAuth flow...'' w
      in case environ w ''CLIENT_SECRET_PATH'' of
           None \<Rightarrow> (Inl (FileNotFoundError ''Client secret file not found at: None''), w1)
         | Some client_secret_file \<Rightarrow>
             (case read_file w client_secret_file of
                None \<Rightarrow>
                  (Inl (FileNotFoundError
                     (''Client secret file not found at: '' @ client_secret_file)), w1)
              | Some text \<Rightarrow> (run_local_server idp text, w1)))"

text \<open>Lines 36 to 45: new credentials, by a refresh when there are expired credentials
  with a refresh token, by the interactive flow otherwise.\<close>

definition renew ::
  "identity_provider \<Rightarrow> credentials option \<Rightarrow> world \<Rightarrow> (exn + credentials) \<times> world" where
  "renew idp creds w =
     (case creds of
        None \<Rightarrow> oauth_flow idp w
      | Some c \<Rightarrow>
          if cred_expired c \<and> cred_refresh_token c \<noteq> None \<and> cred_refresh_token c \<noteq> Some []
          then (refresh idp c, print ''Refreshing access token...'' w)
          else oauth_flow idp w)"

text \<open>Lines 35 to 49: new credentials, saved in the token file.\<close>

definition renew_and_save ::
  "identity_provider \<Rightarrow> credentials option \<Rightarrow> string \<Rightarrow> world
     \<Rightarrow> (exn + credentials) \<times> world" where
  "renew_and_save idp creds token_file w =
     (case renew idp creds w of
        (Inl e, w1) \<Rightarrow> (Inl e, w1)
      | (Inr c, w1) \<Rightarrow>
          (case write_file token_file (cred_json c) w1 of
             (Inl e, w2) \<Rightarrow> (Inl e, w2)
           | (Inr u, w2) \<Rightarrow> (Inr c, w2)))"

text \<open>The whole function. \<^verbatim>\<open>os.path.exists(None)\<close> raises a \<^verbatim>\<open>TypeError\<close> when the
  path of the token file is not configured.\<close>

definition get_credentials :: "identity_provider \<Rightarrow> world \<Rightarrow> (exn + credentials) \<times> world" where
  "get_credentials idp w =
     (case environ w ''GMAIL_CREDENTIALS_PATH'' of
        None \<Rightarrow>
          (Inl (TypeError
             ''stat: path should be string, bytes, os.PathLike or integer, not NoneType''), w)
      | Some token_file \<Rightarrow>
          (case load_token idp w token_file of
             Inl e \<Rightarrow> (Inl e, w)
           | Inr None \<Rightarrow> renew_and_save idp None token_file w
           | Inr (Some c) \<Rightarrow>
               if cred_valid c then (Inr c, w)
               else renew_and_save idp (Some c) token_file w))"

subsection \<open>\<^verbatim>\<open>create_drive_folder\<close> (lines 53 to 68)\<close>

text \<open>\<^verbatim>\<open>datetime.datetime.now().strftime("%m-%Y")\<close>: the month in two digits, a
  hyphen, the year.\<close>

definition strftime_m_Y :: "nat \<Rightarrow> nat \<Rightarrow> string" where
  "strftime_m_Y month year =
     (if month < 10 then ''0'' @ show_nat month else show_nat month) @ ''-'' @ show_nat year"

definition create_drive_folder :: "world \<Rightarrow> (exn + string) \<times> world" where
  "create_drive_folder w =
     (let folder_name = strftime_m_Y (now_month w) (now_year w);
          file_metadata = \<lparr>meta_name = folder_name,
                           meta_mimeType = Some ''application/vnd.google-apps.folder'',
                           meta_parents = None\<rparr>
      in case drive_files_create file_metadata None w of
           (Inl e, w1) \<Rightarrow> (Inl e, w1)
         | (Inr folder_id, w1) \<Rightarrow>
             (Inr folder_id,
              print (''Created folder '' @ [CHR 0x27] @ folder_name @ [CHR 0x27]
                       @ '' in Google Drive with ID: '' @ folder_id) w1))"

subsection \<open>\<^verbatim>\<open>file_exists_in_drive\<close> (lines 70 to 78)\<close>

definition drive_query :: "string \<Rightarrow> string \<Rightarrow> string" where
  "drive_query folder_id safe_name =
     [CHR 0x27] @ folder_id @ [CHR 0x27] @ '' in parents and name = '' @ [CHR 0x27]
       @ safe_name @ [CHR 0x27] @ '' and trashed = false''"

definition file_exists_in_drive :: "string \<Rightarrow> string \<Rightarrow> world \<Rightarrow> (exn + bool) \<times> world" where
  "file_exists_in_drive file_name folder_id w =
     (let safe_name = replace_quote file_name;
          query = drive_query folder_id safe_name
      in case drive_files_list query w of
           (Inl e, w1) \<Rightarrow> (Inl e, w1)
         | (Inr response, w1) \<Rightarrow>
             (let files = (case response_files response of None \<Rightarrow> [] | Some found \<Rightarrow> found)
              in (Inr (length files > 0), w1)))"

subsection \<open>\<^verbatim>\<open>upload_to_drive\<close> (lines 80 to 92)\<close>

definition upload_to_drive :: "string \<Rightarrow> bytes \<Rightarrow> string \<Rightarrow> world \<Rightarrow> (exn + unit) \<times> world" where
  "upload_to_drive file_name file_data folder_id w =
     (let file_metadata = \<lparr>meta_name = file_name,
                           meta_mimeType = None,
                           meta_parents = Some [folder_id]\<rparr>;
          media = (file_data, ''application/octet-stream'')
      in case drive_files_create file_metadata (Some media) w of
           (Inl e, w1) \<Rightarrow> (Inl e, w1)
         | (Inr new_id, w1) \<Rightarrow>
             (Inr (),
              print (''Uploaded '' @ file_name @ '' to Google Drive with ID: '' @ new_id) w1))"

subsection \<open>\<^verbatim>\<open>download_attachments\<close> (lines 94 to 148)\<close>

text \<open>Lines 120 to 145, the body of the inner loop for one part.
  \<^verbatim>\<open>base64.urlsafe_b64decode\<close> is the library's; the model takes it as the parameter
  \<open>b64\<close>, which gives the bytes or the exception the library raises.\<close>

definition process_part ::
  "(string \<Rightarrow> exn + bytes) \<Rightarrow> gmail_service \<Rightarrow> string list \<Rightarrow> string \<Rightarrow> string
     \<Rightarrow> part \<Rightarrow> world \<Rightarrow> (exn + unit) \<times> world" where
  "process_part b64 gmail allowed msg_id drive_folder_id p w =
     (case part_filename p of
        None \<Rightarrow> (Inr (), w)
      | Some filename \<Rightarrow>
          if filename = [] then (Inr (), w)
          else
            (case part_body p of
               None \<Rightarrow> (Inl (KeyError ''body''), w)
             | Some body \<Rightarrow>
                 (case body_attachmentId body of
                    None \<Rightarrow> (Inr (), w)
                  | Some attachment_id \<Rightarrow>
                      if \<not> extension_allowed filename allowed then (Inr (), w)
                      else
                        (case file_exists_in_drive filename drive_folder_id w of
                           (Inl e, w1) \<Rightarrow> (Inl e, w1)
                         | (Inr exists, w1) \<Rightarrow>
                             if exists
                             then (Inr (),
                                   print (''File '' @ [CHR 0x27] @ filename @ [CHR 0x27]
                                            @ '' already exists in Drive folder, skipping.'') w1)
                             else
                               (let w2 = issue (GmailAttachmentsGet msg_id attachment_id) w1
                                in case attachments_get gmail msg_id attachment_id of
                                     Inl e \<Rightarrow> (Inl e, w2)
                                   | Inr att \<Rightarrow>
                                       (case attachment_data att of
                                          None \<Rightarrow> (Inl (KeyError ''data''), w2)
                                        | Some data \<Rightarrow>
                                            (case b64 data of
                                               Inl e \<Rightarrow> (Inl e, w2)
                                             | Inr file_data \<Rightarrow>
                                                 (case upload_to_drive filename file_data
                                                         drive_folder_id w2 of
                                                    (Inl e, w3) \<Rightarrow> (Inl e, w3)
                                                  | (Inr u, w3) \<Rightarrow>
                                                      (Inr (),
                                                       print (''Success: '' @ filename) w3)))))))))"

text \<open>Line 119, the inner loop: the parts in their order; an exception ends it.\<close>

fun process_parts ::
  "(string \<Rightarrow> exn + bytes) \<Rightarrow> gmail_service \<Rightarrow> string list \<Rightarrow> string \<Rightarrow> string
     \<Rightarrow> part list \<Rightarrow> world \<Rightarrow> (exn + unit) \<times> world" where
  "process_parts b64 gmail allowed msg_id drive_folder_id [] w = (Inr (), w)"
| "process_parts b64 gmail allowed msg_id drive_folder_id (p # ps) w =
     (case process_part b64 gmail allowed msg_id drive_folder_id p w of
        (Inl e, w1) \<Rightarrow> (Inl e, w1)
      | (Inr u, w1) \<Rightarrow> process_parts b64 gmail allowed msg_id drive_folder_id ps w1)"

text \<open>Lines 114 to 148, the body of the outer loop for one message of the search
  result.\<close>

definition process_message ::
  "(string \<Rightarrow> exn + bytes) \<Rightarrow> gmail_service \<Rightarrow> string list \<Rightarrow> string
     \<Rightarrow> summary \<Rightarrow> world \<Rightarrow> (exn + unit) \<times> world" where
  "process_message b64 gmail allowed drive_folder_id msg w =
     (case summary_id msg of
        None \<Rightarrow> (Inl (KeyError ''id''), w)
      | Some msg_id \<Rightarrow>
          (let w1 = issue (GmailMessagesGet msg_id) w
           in case messages_get gmail msg_id of
                Inl e \<Rightarrow> (Inl e, w1)
              | Inr message \<Rightarrow>
                  (case message_payload message of
                     None \<Rightarrow> (Inr (), w1)
                   | Some pl \<Rightarrow>
                       (case payload_parts pl of
                          None \<Rightarrow> (Inr (), w1)
                        | Some parts \<Rightarrow>
                            process_parts b64 gmail allowed msg_id drive_folder_id parts w1))))"

text \<open>Line 113, the outer loop: the messages in their order; an exception ends it.\<close>

fun process_messages ::
  "(string \<Rightarrow> exn + bytes) \<Rightarrow> gmail_service \<Rightarrow> string list \<Rightarrow> string
     \<Rightarrow> summary list \<Rightarrow> world \<Rightarrow> (exn + unit) \<times> world" where
  "process_messages b64 gmail allowed drive_folder_id [] w = (Inr (), w)"
| "process_messages b64 gmail allowed drive_folder_id (msg # rest) w =
     (case process_message b64 gmail allowed drive_folder_id msg w of
        (Inl e, w1) \<Rightarrow> (Inl e, w1)
      | (Inr u, w1) \<Rightarrow> process_messages b64 gmail allowed drive_folder_id rest w1)"

text \<open>\<^verbatim>\<open>os.getenv(name, '')\<close>.\<close>

definition getenv_default :: "world \<Rightarrow> string \<Rightarrow> string" where
  "getenv_default w name = (case environ w name of None \<Rightarrow> [] | Some v \<Rightarrow> v)"

definition download_attachments ::
  "(string \<Rightarrow> exn + bytes) \<Rightarrow> gmail_service \<Rightarrow> string \<Rightarrow> string \<Rightarrow> world
     \<Rightarrow> (exn + unit) \<times> world" where
  "download_attachments b64 gmail query drive_folder_id w =
     (let extensions_env = getenv_default w ''ALLOWED_EXTENSIONS'';
          allowed = allowed_extensions extensions_env;
          w1 = print (''Searching for messages with query: '' @ query) w;
          w2 = issue (GmailMessagesList query) w1
      in case messages_list gmail query of
           Inl e \<Rightarrow> (Inl e, w2)
         | Inr results \<Rightarrow>
             (let messages = (case list_messages results of None \<Rightarrow> [] | Some ms \<Rightarrow> ms)
              in if messages = [] then (Inr (), print ''No messages found.'' w2)
                 else process_messages b64 gmail allowed drive_folder_id messages
                        (print (''Found '' @ show_nat (length messages)
                                  @ '' messages. Processing...'') w2)))"

subsection \<open>\<^verbatim>\<open>main\<close> (lines 150 to 173)\<close>

text \<open>The body of the \<^verbatim>\<open>try\<close>. Building the two service handles issues no call; the
  handle of the mail service is the parameter \<open>gmail\<close>.\<close>

definition main_body ::
  "identity_provider \<Rightarrow> (string \<Rightarrow> exn + bytes) \<Rightarrow> gmail_service \<Rightarrow> world
     \<Rightarrow> (exn + unit) \<times> world" where
  "main_body idp b64 gmail w =
     (case get_credentials idp w of
        (Inl e, w1) \<Rightarrow> (Inl e, w1)
      | (Inr creds, w1) \<Rightarrow>
          (case create_drive_folder w1 of
             (Inl e, w2) \<Rightarrow> (Inl e, w2)
           | (Inr drive_folder_id, w2) \<Rightarrow>
               (case environ w2 ''GMAIL_SEARCH_QUERY'' of
                  None \<Rightarrow>
                    (Inr (), print ''Error: GMAIL_SEARCH_QUERY not found in .env file.'' w2)
                | Some query \<Rightarrow>
                    if query = []
                    then (Inr (), print ''Error: GMAIL_SEARCH_QUERY not found in .env file.'' w2)
                    else download_attachments b64 gmail query drive_folder_id w2)))"

text \<open>The whole of \<^verbatim>\<open>main\<close>: any exception is caught and printed.\<close>

definition main :: "identity_provider \<Rightarrow> (string \<Rightarrow> exn + bytes) \<Rightarrow> gmail_service \<Rightarrow> world \<Rightarrow> world" where
  "main idp b64 gmail w =
     (case main_body idp b64 gmail w of
        (Inl e, w1) \<Rightarrow> print (''An error occurred: '' @ exn_str e) w1
      | (Inr u, w1) \<Rightarrow> w1)"

section \<open>What the properties speak about\<close>


text \<open>A file of exactly this name lies in the folder and is not trashed.\<close>

definition exists_in_folder :: "string \<Rightarrow> string \<Rightarrow> world \<Rightarrow> bool" where
  "exists_in_folder name folder_id w =
     list_ex (\<lambda>f. folder_id \<in> set (df_parents f) \<and> df_name f = name \<and> \<not> df_trashed f)
       (drive_files w)"

text \<open>The calls issued between two worlds of a run.\<close>

definition new_calls :: "world \<Rightarrow> world \<Rightarrow> call list" where
  "new_calls w w' = drop (length (calls w)) (calls w')"

text \<open>An upload is a \<^verbatim>\<open>files().create\<close> with a media body; the creation of a folder has
  none.\<close>

fun is_upload :: "call \<Rightarrow> bool" where
  "is_upload (DriveFilesCreate body (Some media)) = True"
| "is_upload _ = False"

fun is_gmail_call :: "call \<Rightarrow> bool" where
  "is_gmail_call (GmailMessagesList q) = True"
| "is_gmail_call (GmailMessagesGet i) = True"
| "is_gmail_call (GmailAttachmentsGet i a) = True"
| "is_gmail_call _ = False"

text \<open>The names of the uploads among some calls, and the ids of the messages fetched,
  each in the order of the calls.\<close>

fun uploaded_names :: "call list \<Rightarrow> string list" where
  "uploaded_names [] = []"
| "uploaded_names (DriveFilesCreate body (Some media) # cs) = meta_name body # uploaded_names cs"
| "uploaded_names (c # cs) = uploaded_names cs"

fun fetched_ids :: "call list \<Rightarrow> string list" where
  "fetched_ids [] = []"
| "fetched_ids (GmailMessagesGet i # cs) = i # fetched_ids cs"
| "fetched_ids (c # cs) = fetched_ids cs"

text \<open>The call that uploads bytes under a name into a folder, and the search the
  duplicate guard sends.\<close>

definition upload_call :: "string \<Rightarrow> bytes \<Rightarrow> string \<Rightarrow> call" where
  "upload_call file_name file_data folder_id =
     DriveFilesCreate \<lparr>meta_name = file_name, meta_mimeType = None,
                        meta_parents = Some [folder_id]\<rparr>
       (Some (file_data, ''application/octet-stream''))"

definition guard_call :: "string \<Rightarrow> string \<Rightarrow> call" where
  "guard_call file_name folder_id = DriveFilesList (drive_query folder_id (replace_quote file_name))"

text \<open>The parts of a message of the search result, as the mail service returns them
  (none when the message cannot be fetched or has no parts), and the parts of all the
  messages, first by message, then by part.\<close>

definition parts_of :: "gmail_service \<Rightarrow> summary \<Rightarrow> part list" where
  "parts_of gmail msg =
     (case summary_id msg of
        None \<Rightarrow> []
      | Some msg_id \<Rightarrow>
          (case messages_get gmail msg_id of
             Inl e \<Rightarrow> []
           | Inr m \<Rightarrow>
               (case message_payload m of
                  None \<Rightarrow> []
                | Some pl \<Rightarrow> (case payload_parts pl of None \<Rightarrow> [] | Some ps \<Rightarrow> ps))))"

definition scan_order :: "gmail_service \<Rightarrow> summary list \<Rightarrow> part list" where
  "scan_order gmail msgs = concat (map (parts_of gmail) msgs)"

text \<open>The messages a search finds: the one page the script reads (none when the
  search fails or the answer has no \<^verbatim>\<open>messages\<close> key).\<close>

definition search_result :: "gmail_service \<Rightarrow> string \<Rightarrow> summary list" where
  "search_result gmail query =
     (case messages_list gmail query of
        Inl e \<Rightarrow> []
      | Inr results \<Rightarrow> (case list_messages results of None \<Rightarrow> [] | Some ms \<Rightarrow> ms))"

text \<open>The call that creates the folder of a month.\<close>

definition folder_call :: "string \<Rightarrow> call" where
  "folder_call folder_name =
     DriveFilesCreate \<lparr>meta_name = folder_name,
                        meta_mimeType = Some ''application/vnd.google-apps.folder'',
                        meta_parents = None\<rparr> None"

fun is_folder_create :: "call \<Rightarrow> bool" where
  "is_folder_create (DriveFilesCreate body None) = True"
| "is_folder_create _ = False"

text \<open>\<^verbatim>\<open>','.join(pieces)\<close>: the pieces with a comma between neighbours. Splitting is
  specified by it: the pieces of a string hold no comma and join to the string.\<close>

fun join_comma :: "string list \<Rightarrow> string" where
  "join_comma [] = []"
| "join_comma [p] = p"
| "join_comma (p # q # ps) = p @ CHR '','' # join_comma (q # ps)"

text \<open>A string without a comma, a string of white space, and a string that neither
  begins nor ends with white space.\<close>

definition comma_free :: "string \<Rightarrow> bool" where
  "comma_free p = (CHR '','' \<notin> set p)"

definition blank :: "string \<Rightarrow> bool" where
  "blank s = list_all isspace s"

definition trimmed :: "string \<Rightarrow> bool" where
  "trimmed s = (s = [] \<or> (\<not> isspace (hd s) \<and> \<not> isspace (last s)))"

text \<open>The allowed-extension set as the specification words it: split on commas, trim
  each entry, put it in lower case, drop the entries that are empty.\<close>

definition spec_allowed_extensions :: "string \<Rightarrow> string list" where
  "spec_allowed_extensions s = filter (\<lambda>e. e \<noteq> []) (map lower (map strip (split_comma s)))"

text \<open>A configuration value made of commas and white space only.\<close>

definition blank_configuration :: "string \<Rightarrow> bool" where
  "blank_configuration s = list_all (\<lambda>c. c = CHR '','' \<or> isspace c) s"

text \<open>The call \<open>c\<close> uploads the attachment of part \<open>p\<close> of the message
  \<open>msg_id\<close>: the part has a file name and an attachment id, the mail service returns
  the attachment with a \<^verbatim>\<open>data\<close> field, the field decodes, and \<open>c\<close> uploads the decoded
  bytes under the file name of the part into the folder.\<close>

definition upload_of_part ::
  "(string \<Rightarrow> exn + bytes) \<Rightarrow> gmail_service \<Rightarrow> string \<Rightarrow> string \<Rightarrow> part \<Rightarrow> call \<Rightarrow> bool" where
  "upload_of_part b64 gmail folder_id msg_id p c =
     (case part_filename p of
        None \<Rightarrow> False
      | Some filename \<Rightarrow>
          (case part_body p of
             None \<Rightarrow> False
           | Some body \<Rightarrow>
               (case body_attachmentId body of
                  None \<Rightarrow> False
                | Some attachment_id \<Rightarrow>
                    (case attachments_get gmail msg_id attachment_id of
                       Inl e \<Rightarrow> False
                     | Inr att \<Rightarrow>
                         (case attachment_data att of
                            None \<Rightarrow> False
                          | Some data \<Rightarrow>
                              (case b64 data of
                                 Inl e \<Rightarrow> False
                               | Inr file_data \<Rightarrow> c = upload_call filename file_data folder_id))))))"

text \<open>The call uploads the attachment of some part of one of the messages.\<close>

definition upload_of_message ::
  "(string \<Rightarrow> exn + bytes) \<Rightarrow> gmail_service \<Rightarrow> string \<Rightarrow> summary \<Rightarrow> call \<Rightarrow> bool" where
  "upload_of_message b64 gmail folder_id msg c =
     (case summary_id msg of
        None \<Rightarrow> False
      | Some msg_id \<Rightarrow> list_ex (\<lambda>p. upload_of_part b64 gmail folder_id msg_id p c) (parts_of gmail msg))"

definition upload_of_search ::
  "(string \<Rightarrow> exn + bytes) \<Rightarrow> gmail_service \<Rightarrow> string \<Rightarrow> string \<Rightarrow> call \<Rightarrow> bool" where
  "upload_of_search b64 gmail folder_id query c =
     list_ex (\<lambda>msg. upload_of_message b64 gmail folder_id msg c) (search_result gmail query)"

text \<open>The bytes of an attachment when the mail service returns it with a \<^verbatim>\<open>data\<close>
  field that decodes; \<open>None\<close> when the fetch, the lookup of the field or the
  decoding raises.\<close>

definition decoded_attachment ::
  "(string \<Rightarrow> exn + bytes) \<Rightarrow> gmail_service \<Rightarrow> string \<Rightarrow> string \<Rightarrow> bytes option" where
  "decoded_attachment b64 gmail msg_id attachment_id =
     (case attachments_get gmail msg_id attachment_id of
        Inl e \<Rightarrow> None
      | Inr att \<Rightarrow>
          (case attachment_data att of
             None \<Rightarrow> None
           | Some data \<Rightarrow> (case b64 data of Inl e \<Rightarrow> None | Inr file_data \<Rightarrow> Some file_data)))"

text \<open>The candidate a part stands for: its file name and its attachment id, when the
  part has a non-empty file name, a body with an attachment id, and a name the filter
  accepts.\<close>

definition candidate_of :: "string list \<Rightarrow> part \<Rightarrow> (string \<times> string) option" where
  "candidate_of allowed p =
     (case part_filename p of
        None \<Rightarrow> None
      | Some filename \<Rightarrow>
          if filename = [] then None
          else
            (case part_body p of
               None \<Rightarrow> None
             | Some body \<Rightarrow>
                 (case body_attachmentId body of
                    None \<Rightarrow> None
                  | Some attachment_id \<Rightarrow>
                      if extension_allowed filename allowed
                      then Some (filename, attachment_id) else None)))"

text \<open>The calls the processing of one part can issue, as one block: nothing for a part
  that is no candidate; for a candidate the search of the guard, then the fetch of the
  attachment, then the upload of its decoded bytes, cut short after the search or after
  the fetch.\<close>

definition part_blocks ::
  "(string \<Rightarrow> exn + bytes) \<Rightarrow> gmail_service \<Rightarrow> string list \<Rightarrow> string \<Rightarrow> string \<Rightarrow> part
     \<Rightarrow> call list list" where
  "part_blocks b64 gmail allowed folder_id msg_id p =
     (case candidate_of allowed p of
        None \<Rightarrow> [[]]
      | Some (filename, attachment_id) \<Rightarrow>
          [guard_call filename folder_id]
          # [guard_call filename folder_id, GmailAttachmentsGet msg_id attachment_id]
          # (case decoded_attachment b64 gmail msg_id attachment_id of
               None \<Rightarrow> []
             | Some file_data \<Rightarrow>
                 [[guard_call filename folder_id, GmailAttachmentsGet msg_id attachment_id,
                   upload_call filename file_data folder_id]]))"

text \<open>The calls that mark the order of processing: the fetch of a message opens the
  processing of the message, the search of the guard opens that of a candidate. The marks
  of a search result, as the order of the messages and of their parts fixes them.\<close>

fun is_mark :: "call \<Rightarrow> bool" where
  "is_mark (GmailMessagesGet i) = True"
| "is_mark (DriveFilesList q) = True"
| "is_mark _ = False"

definition order_marks :: "call list \<Rightarrow> call list" where
  "order_marks cs = filter is_mark cs"

definition part_marks :: "string list \<Rightarrow> string \<Rightarrow> part \<Rightarrow> call list" where
  "part_marks allowed folder_id p =
     (case candidate_of allowed p of
        None \<Rightarrow> []
      | Some (filename, attachment_id) \<Rightarrow> [guard_call filename folder_id])"

definition message_marks :: "gmail_service \<Rightarrow> string list \<Rightarrow> string \<Rightarrow> summary \<Rightarrow> call list" where
  "message_marks gmail allowed folder_id msg =
     (case summary_id msg of
        None \<Rightarrow> []
      | Some msg_id \<Rightarrow>
          GmailMessagesGet msg_id
          # concat (map (part_marks allowed folder_id) (parts_of gmail msg)))"

definition expected_marks ::
  "gmail_service \<Rightarrow> string list \<Rightarrow> string \<Rightarrow> summary list \<Rightarrow> call list" where
  "expected_marks gmail allowed folder_id msgs =
     concat (map (message_marks gmail allowed folder_id) msgs)"


section \<open>A mailbox and a world to run the script on\<close>

text \<open>A small mailbox. The search \<^verbatim>\<open>has:attachment\<close> finds three messages: \<^verbatim>\<open>m1\<close>
  carries \<^verbatim>\<open>Invoice.PDF\<close> and \<^verbatim>\<open>notes.txt\<close>, \<^verbatim>\<open>m2\<close> is plain text with no payload
  parts, \<^verbatim>\<open>m3\<close> carries a second \<^verbatim>\<open>Invoice.PDF\<close>. The search \<^verbatim>\<open>label:scans\<close> finds
  \<^verbatim>\<open>m4\<close>, whose first part has a file name and no body, and then \<^verbatim>\<open>m1\<close>. The
  search \<^verbatim>\<open>subject:invoice\<close> finds \<^verbatim>\<open>m3\<close> and \<^verbatim>\<open>m5\<close>, which carries an
  \<^verbatim>\<open>Invoice.PDF\<close> too; the attachment of \<^verbatim>\<open>m5\<close> cannot be fetched. The search
  \<^verbatim>\<open>label:two\<close> finds \<^verbatim>\<open>m6\<close>, which carries \<^verbatim>\<open>b.pdf\<close> and then \<^verbatim>\<open>a.pdf\<close>.\<close>

definition demo_part :: "string \<Rightarrow> string \<Rightarrow> part" where
  "demo_part name attachment_id =
     \<lparr>part_filename = Some name,
      part_body = Some \<lparr>body_attachmentId = Some attachment_id\<rparr>\<rparr>"

definition demo_message :: "part list \<Rightarrow> message" where
  "demo_message ps = \<lparr>message_payload = Some \<lparr>payload_parts = Some ps\<rparr>\<rparr>"

definition demo_gmail :: gmail_service where
  "demo_gmail =
     \<lparr>messages_list = (\<lambda>q.
        if q = ''has:attachment''
        then Inr \<lparr>list_messages = Some [\<lparr>summary_id = Some ''m1''\<rparr>,
                                        \<lparr>summary_id = Some ''m2''\<rparr>,
                                        \<lparr>summary_id = Some ''m3''\<rparr>]\<rparr>
        else if q = ''label:scans''
        then Inr \<lparr>list_messages = Some [\<lparr>summary_id = Some ''m4''\<rparr>,
                                        \<lparr>summary_id = Some ''m1''\<rparr>]\<rparr>
        else if q = ''label:two'' then Inr \<lparr>list_messages = Some [\<lparr>summary_id = Some ''m6''\<rparr>]\<rparr>
        else if q = ''subject:invoice''
        then Inr \<lparr>list_messages = Some [\<lparr>summary_id = Some ''m3''\<rparr>,
                                        \<lparr>summary_id = Some ''m5''\<rparr>]\<rparr>
        else Inr \<lparr>list_messages = None\<rparr>),
      messages_get = (\<lambda>i.
        if i = ''m1''
        then Inr (demo_message [demo_part ''Invoice.PDF'' ''a1'', demo_part ''notes.txt'' ''a2''])
        else if i = ''m2'' then Inr \<lparr>message_payload = None\<rparr>
        else if i = ''m3'' then Inr (demo_message [demo_part ''Invoice.PDF'' ''a3''])
        else if i = ''m5'' then Inr (demo_message [demo_part ''Invoice.PDF'' ''a5''])
        else if i = ''m6''
        then Inr (demo_message [demo_part ''b.pdf'' ''a6'', demo_part ''a.pdf'' ''a7''])
        else if i = ''m4''
        then Inr (demo_message [\<lparr>part_filename = Some ''scan.pdf'', part_body = None\<rparr>,
                                demo_part ''later.pdf'' ''a4''])
        else Inl (ServiceError ''Not Found'')),
      attachments_get = (\<lambda>i a.
        if i = ''m1'' \<and> a = ''a1'' then Inr \<lparr>attachment_data = Some ''aGk=''\<rparr>
        else if i = ''m3'' \<and> a = ''a3'' then Inr \<lparr>attachment_data = Some ''eW8=''\<rparr>
        else if i = ''m6'' \<and> a = ''a6'' then Inr \<lparr>attachment_data = Some ''aGk=''\<rparr>
        else if i = ''m6'' \<and> a = ''a7'' then Inr \<lparr>attachment_data = Some ''eW8=''\<rparr>
        else Inl (ServiceError ''Not Found''))\<rparr>"

text \<open>The decoder on the two payloads of this mailbox.\<close>

definition demo_b64 :: "string \<Rightarrow> exn + bytes" where
  "demo_b64 s =
     (if s = ''aGk='' then Inr ''hi''
      else if s = ''eW8='' then Inr ''yo''
      else Inl (ServiceError ''Incorrect padding''))"

definition demo_idp :: identity_provider where
  "demo_idp =
     \<lparr>from_authorized_user_file = (\<lambda>t. Inr \<lparr>cred_valid = True, cred_expired = False,
                                              cred_refresh_token = Some ''r'', cred_json = t\<rparr>),
      refresh = (\<lambda>c. Inr c),
      run_local_server = (\<lambda>t. Inl (ServiceError ''no browser''))\<rparr>"

text \<open>A world in November 2026 with an empty storage service that refuses nothing, a
  token file, no path that refuses a write, and the environment given as a list of
  variables and values.\<close>

definition demo_world :: "(string \<times> string) list \<Rightarrow> world" where
  "demo_world vars =
     \<lparr>environ = map_of vars,
      now_month = 11,
      now_year = 2026,
      fs = map_of [(''token.json'', ''{}'')],
      write_fault = (\<lambda>path. None),
      drive_files = [],
      drive_counter = 0,
      drive_fault = (\<lambda>c. None),
      calls = [],
      stdout = []\<rparr>"

definition demo_vars :: "(string \<times> string) list" where
  "demo_vars =
     [(''GMAIL_CREDENTIALS_PATH'', ''token.json''),
      (''ALLOWED_EXTENSIONS'', ''.pdf, .JPG''),
      (''GMAIL_SEARCH_QUERY'', ''has:attachment'')]"

text \<open>The same world when the storage service holds a folder of this month already.\<close>

definition demo_world_with_folder :: world where
  "demo_world_with_folder =
     (demo_world demo_vars)
       \<lparr>drive_files := [\<lparr>df_id = ''id0'', df_name = ''11-2026'',
                          df_mimeType = ''application/vnd.google-apps.folder'',
                          df_parents = [''root''], df_trashed = False, df_media = None\<rparr>],
        drive_counter := 1\<rparr>"

text \<open>A file name with two backslashes in a row, and one that ends in a backslash.\<close>

definition demo_backslash_name :: string where
  "demo_backslash_name = ''a'' @ [CHR 0x5C, CHR 0x5C] @ ''.pdf''"

definition demo_trailing_backslash_name :: string where
  "demo_trailing_backslash_name = ''a.pdf'' @ [CHR 0x5C]"

text \<open>The world after an earlier upload: the destination folder \<^verbatim>\<open>id0\<close> holds one
  file of the given name, not trashed.\<close>

definition demo_world_with_file :: "string \<Rightarrow> world" where
  "demo_world_with_file name =
     (demo_world demo_vars)
       \<lparr>drive_files := [\<lparr>df_id = ''id0'', df_name = ''11-2026'',
                          df_mimeType = ''application/vnd.google-apps.folder'',
                          df_parents = [''root''], df_trashed = False, df_media = None\<rparr>,
                        \<lparr>df_id = ''id1'', df_name = name,
                          df_mimeType = ''application/octet-stream'',
                          df_parents = [''id0''], df_trashed = False,
                          df_media = Some (''hi'', ''application/octet-stream'')\<rparr>],
        drive_counter := 2\<rparr>"

section \<open>Properties\<close>

subsection \<open>Strings\<close>

lemma endswith_iff_suffix: "endswith s suf \<longleftrightarrow> suffix suf s"
proof
  assume "endswith s suf"
  then have "s = take (length s - length suf) s @ suf"
    by (metis append_take_drop_id endswith_def)
  then show "suffix suf s" by (metis suffixI)
next
  assume "suffix suf s"
  then obtain zs where "s = zs @ suf" by (auto simp: suffix_def)
  then show "endswith s suf" by (simp add: endswith_def)
qed

lemma extension_allowed_iff:
  "extension_allowed f S \<longleftrightarrow> (\<exists>ext\<in>set S. suffix ext (lower f))"
  by (simp add: extension_allowed_def list_ex_iff endswith_iff_suffix)

lemma lower_char_idem: "lower_char (lower_char c) = lower_char c"
  by (auto simp: lower_char_def Let_def)

lemma lower_idem: "lower (lower s) = lower s"
  by (simp add: lower_def lower_char_idem)

lemma lower_Nil_iff: "lower e = [] \<longleftrightarrow> e = []"
  by (simp add: lower_def)

lemma suffix_lower_iff:
  "suffix ext (lower f) \<longleftrightarrow> (\<exists>t. suffix t f \<and> lower t = ext)"
proof
  assume "suffix ext (lower f)"
  then obtain zs where zs: "lower f = zs @ ext" by (auto simp: suffix_def)
  let ?t = "drop (length zs) f"
  have "lower ?t = drop (length zs) (lower f)" by (simp add: lower_def drop_map)
  then have "lower ?t = ext" using zs by simp
  moreover have "suffix ?t f" by (rule suffix_drop)
  ultimately show "\<exists>t. suffix t f \<and> lower t = ext" by blast
next
  assume "\<exists>t. suffix t f \<and> lower t = ext"
  then obtain t p where "f = p @ t" "lower t = ext" by (auto simp: suffix_def)
  then have "lower f = lower p @ ext" by (simp add: lower_def)
  then show "suffix ext (lower f)" by (simp add: suffix_def)
qed

lemma split_comma_not_Nil: "split_comma s \<noteq> []"
  by (induction s) (auto simp: Let_def)

lemma split_comma_blank:
  "list_all (\<lambda>c. c = CHR '','' \<or> isspace c) s \<Longrightarrow> list_all (list_all isspace) (split_comma s)"
proof (induction s)
  case Nil
  then show ?case by simp
next
  case (Cons c cs)
  then have ih: "list_all (list_all isspace) (split_comma cs)" by simp
  obtain x xs where r: "split_comma cs = x # xs"
    using split_comma_not_Nil by (cases "split_comma cs") auto
  from Cons.prems ih r show ?case by (auto simp: Let_def)
qed

lemma strip_blank: "list_all isspace s \<Longrightarrow> strip s = []"
proof -
  assume "list_all isspace s"
  then have d: "dropWhile isspace s = []" by (induction s) auto
  show ?thesis unfolding strip_def d by simp
qed

lemma allowed_extensions_blank:
  assumes "list_all (\<lambda>c. c = CHR '','' \<or> isspace c) s"
  shows "allowed_extensions s = []"
proof -
  have "list_all (list_all isspace) (split_comma s)"
    using assms by (rule split_comma_blank)
  then have "filter (\<lambda>ext. strip ext \<noteq> []) (split_comma s) = []"
    by (auto simp: filter_empty_conv list_all_iff strip_blank)
  then show ?thesis by (simp add: allowed_extensions_def)
qed

lemma allowed_extensions_lower: "ext \<in> set (allowed_extensions env) \<Longrightarrow> lower ext = ext"
  by (auto simp: allowed_extensions_def lower_idem)

lemma allowed_extensions_refines: "allowed_extensions s = spec_allowed_extensions s"
  unfolding allowed_extensions_def spec_allowed_extensions_def
  by (induction "split_comma s") (simp_all add: filter_map comp_def lower_Nil_iff)

lemma show_nat_digit: "n < 10 \<Longrightarrow> show_nat n = [digit_char n]"
  by (simp add: show_nat.simps)

lemma show_nat_step: "10 \<le> n \<Longrightarrow> show_nat n = show_nat (n div 10) @ [digit_char (n mod 10)]"
  by (subst show_nat.simps) simp

lemma show_nat_two: "10 \<le> n \<Longrightarrow> n < 100 \<Longrightarrow> show_nat n = [digit_char (n div 10), digit_char (n mod 10)]"
  by (simp add: show_nat_step show_nat_digit)

lemma show_nat_four:
  assumes "1000 \<le> n" and "n < 10000"
  shows "show_nat n = [digit_char (n div 1000), digit_char (n div 100 mod 10),
                       digit_char (n div 10 mod 10), digit_char (n mod 10)]"
proof -
  have b: "n div 10 div 10 = n div 100" "n div 100 div 10 = n div 1000"
    by (simp_all add: div_mult2_eq [symmetric])
  have s1: "show_nat n = show_nat (n div 10) @ [digit_char (n mod 10)]"
    using assms by (intro show_nat_step) simp
  have s2: "show_nat (n div 10) = show_nat (n div 100) @ [digit_char (n div 10 mod 10)]"
    using assms show_nat_step [of "n div 10"] unfolding b by simp
  have s3: "show_nat (n div 100) = show_nat (n div 1000) @ [digit_char (n div 100 mod 10)]"
    using assms show_nat_step [of "n div 100"] unfolding b by simp
  have s4: "show_nat (n div 1000) = [digit_char (n div 1000)]"
    using assms by (intro show_nat_digit) simp
  show ?thesis unfolding s1 s2 s3 s4 by simp
qed

lemma strftime_m_Y_format:
  assumes "1 \<le> month" "month \<le> 12" "1000 \<le> year" "year < 10000"
  shows "strftime_m_Y month year =
           [digit_char (month div 10), digit_char (month mod 10), CHR ''-'',
            digit_char (year div 1000), digit_char (year div 100 mod 10),
            digit_char (year div 10 mod 10), digit_char (year mod 10)]"
proof (cases "month < 10")
  case True
  have "digit_char 0 = CHR ''0''" by (simp add: digit_char_def)
  then show ?thesis
    using True assms by (simp add: strftime_m_Y_def show_nat_digit show_nat_four)
next
  case False
  then show ?thesis
    using assms by (simp add: strftime_m_Y_def show_nat_two show_nat_four)
qed

subsection \<open>The world and the storage service\<close>






lemma print_fields [simp]:
  "environ (print l w) = environ w" "now_month (print l w) = now_month w"
  "now_year (print l w) = now_year w" "fs (print l w) = fs w"
  "write_fault (print l w) = write_fault w"
  "drive_files (print l w) = drive_files w" "drive_counter (print l w) = drive_counter w"
  "drive_fault (print l w) = drive_fault w" "calls (print l w) = calls w"
  "stdout (print l w) = stdout w @ [l]"
  by (simp_all add: print_def)

lemma issue_fields [simp]:
  "environ (issue c w) = environ w" "now_month (issue c w) = now_month w"
  "now_year (issue c w) = now_year w" "fs (issue c w) = fs w"
  "write_fault (issue c w) = write_fault w"
  "drive_files (issue c w) = drive_files w" "drive_counter (issue c w) = drive_counter w"
  "drive_fault (issue c w) = drive_fault w" "calls (issue c w) = calls w @ [c]"
  "stdout (issue c w) = stdout w"
  by (simp_all add: issue_def)

lemma exists_in_folder_frame [simp]:
  "exists_in_folder n f (print l w) = exists_in_folder n f w"
  "exists_in_folder n f (issue c w) = exists_in_folder n f w"
  by (simp_all add: exists_in_folder_def)


lemma file_exists_in_drive_world:
  "snd (file_exists_in_drive n f w) = issue (guard_call n f) w"
  by (simp add: file_exists_in_drive_def guard_call_def drive_files_list_def Let_def
      split: option.splits prod.splits sum.splits)




lemma upload_to_drive_calls:
  "calls (snd (upload_to_drive n d f w)) = calls w @ [upload_call n d f]"
  by (simp add: upload_to_drive_def upload_call_def drive_files_create_def Let_def
      split: option.splits)


lemma create_drive_folder_calls:
  "calls (snd (create_drive_folder w))
     = calls w @ [folder_call (strftime_m_Y (now_month w) (now_year w))]"
  by (simp add: create_drive_folder_def drive_files_create_def folder_call_def Let_def
      split: option.splits)

lemma create_drive_folder_ok:
  assumes "drive_fault w (folder_call (strftime_m_Y (now_month w) (now_year w))) = None"
  shows "create_drive_folder w =
     (Inr (''id'' @ show_nat (drive_counter w)),
      print (''Created folder '' @ [CHR 0x27] @ strftime_m_Y (now_month w) (now_year w) @ [CHR 0x27]
               @ '' in Google Drive with ID: '' @ ''id'' @ show_nat (drive_counter w))
        ((issue (folder_call (strftime_m_Y (now_month w) (now_year w))) w)
           \<lparr>drive_files := drive_files w @
              [\<lparr>df_id = ''id'' @ show_nat (drive_counter w),
                df_name = strftime_m_Y (now_month w) (now_year w),
                df_mimeType = ''application/vnd.google-apps.folder'',
                df_parents = [''root''], df_trashed = False, df_media = None\<rparr>],
            drive_counter := Suc (drive_counter w)\<rparr>))"
  using assms
  by (simp add: create_drive_folder_def drive_files_create_def folder_call_def Let_def)

lemma create_drive_folder_environ:
  "environ (snd (create_drive_folder w)) = environ w"
  by (simp add: create_drive_folder_def drive_files_create_def Let_def split: option.splits)

lemma get_credentials_frame:
  assumes "get_credentials idp w = (r, w1)"
  shows "calls w1 = calls w \<and> environ w1 = environ w \<and> drive_files w1 = drive_files w \<and>
         drive_fault w1 = drive_fault w \<and> drive_counter w1 = drive_counter w \<and>
         now_month w1 = now_month w \<and> now_year w1 = now_year w"
  using assms
  by (auto simp: get_credentials_def renew_and_save_def renew_def oauth_flow_def write_file_def
      Let_def split: sum.splits option.splits if_splits prod.splits)

subsection \<open>The calls of a run\<close>

lemma uploaded_names_append: "uploaded_names (a @ b) = uploaded_names a @ uploaded_names b"
  by (induction a rule: uploaded_names.induct) simp_all

lemma fetched_ids_append: "fetched_ids (a @ b) = fetched_ids a @ fetched_ids b"
  by (induction a rule: fetched_ids.induct) simp_all

lemma new_calls_append: "calls w' = calls w @ cs \<Longrightarrow> new_calls w w' = cs"
  by (simp add: new_calls_def)


lemma map_filter_Cons_append:
  "List.map_filter f (x # xs) = List.map_filter f [x] @ List.map_filter f xs"
  by (simp add: List.map_filter_def)

lemma list_all_weaken:
  "list_all P cs \<Longrightarrow> (\<And>c. P c \<Longrightarrow> Q c) \<Longrightarrow> list_all Q cs"
  by (auto simp: list_all_iff)

lemma upload_is_no_gmail_call: "list_all is_gmail_call cs \<Longrightarrow> filter is_upload cs = []"
proof (induction cs)
  case Nil
  then show ?case by simp
next
  case (Cons c cs)
  then show ?case by (cases c) auto
qed

lemma process_part_new_calls:
  "\<exists>cs. calls (snd (process_part b64 gmail allowed mid folder p w)) = calls w @ cs \<and>
     (cs = [] \<or>
      (\<exists>fn body aid. part_filename p = Some fn \<and> fn \<noteq> [] \<and> part_body p = Some body \<and>
         body_attachmentId body = Some aid \<and> extension_allowed fn allowed \<and>
         (cs = [guard_call fn folder] \<or>
          cs = [guard_call fn folder, GmailAttachmentsGet mid aid] \<or>
          (\<exists>att d bs. attachments_get gmail mid aid = Inr att \<and> attachment_data att = Some d \<and>
             b64 d = Inr bs \<and>
             cs = [guard_call fn folder, GmailAttachmentsGet mid aid, upload_call fn bs folder]))))"
proof -
  have g: "\<And>fn r w1. file_exists_in_drive fn folder w = (r, w1) \<Longrightarrow> w1 = issue (guard_call fn folder) w"
    using file_exists_in_drive_world by (metis snd_conv)
  have u: "\<And>fn d r w2 w3. upload_to_drive fn d folder w2 = (r, w3) \<Longrightarrow>
             calls w3 = calls w2 @ [upload_call fn d folder]"
    using upload_to_drive_calls by (metis snd_conv)
  show ?thesis
    unfolding process_part_def
    by (auto simp: Let_def dest!: g u split: option.splits sum.splits prod.splits)
qed

lemma process_parts_append:
  "process_parts b64 gmail allowed mid folder (ps @ qs) w =
     (case process_parts b64 gmail allowed mid folder ps w of
        (Inl e, w1) \<Rightarrow> (Inl e, w1)
      | (Inr u, w1) \<Rightarrow> process_parts b64 gmail allowed mid folder qs w1)"
  by (induction ps arbitrary: w) (auto split: prod.splits sum.splits)

lemma process_messages_append:
  "process_messages b64 gmail allowed folder (ms @ ns) w =
     (case process_messages b64 gmail allowed folder ms w of
        (Inl e, w1) \<Rightarrow> (Inl e, w1)
      | (Inr u, w1) \<Rightarrow> process_messages b64 gmail allowed folder ns w1)"
  by (induction ms arbitrary: w) (auto split: prod.splits sum.splits)

lemma process_message_parts:
  assumes "summary_id msg = Some mid" and "parts_of gmail msg \<noteq> []"
  shows "process_message b64 gmail allowed folder msg w
           = process_parts b64 gmail allowed mid folder (parts_of gmail msg)
               (issue (GmailMessagesGet mid) w)"
  using assms
  by (auto simp: process_message_def parts_of_def Let_def split: sum.splits option.splits)

lemma download_attachments_messages:
  assumes "search_result gmail query \<noteq> []"
  shows "download_attachments b64 gmail query folder w
      = process_messages b64 gmail (allowed_extensions (getenv_default w ''ALLOWED_EXTENSIONS''))
          folder (search_result gmail query)
          (print (''Found '' @ show_nat (length (search_result gmail query))
                      @ '' messages. Processing...'')
               (issue (GmailMessagesList query)
                  (print (''Searching for messages with query: '' @ query) w)))"
  using assms
  by (auto simp: download_attachments_def search_result_def Let_def
      split: sum.splits option.splits)

lemma main_calls: "calls (main idp b64 gmail w) = calls (snd (main_body idp b64 gmail w))"
  by (simp add: main_def split: prod.splits sum.splits)

subsection \<open>The attachment filter (C1)\<close>

text \<open>
  C1. The attachment filter accepts a file name exactly when some allowed suffix ends the
  lower-cased name, and accepts nothing when no suffix is allowed. For the suffixes the
  script derives from its configuration this is a match without regard to case: some
  ending of the name and the suffix have the same lower-case form.
\<close>

theorem filter_accepts_iff_suffix:
  "(extension_allowed f S \<longleftrightarrow> (\<exists>ext\<in>set S. suffix ext (lower f))) \<and>
   \<not> extension_allowed f [] \<and>
   (extension_allowed f (allowed_extensions env) \<longleftrightarrow>
      (\<exists>ext\<in>set (allowed_extensions env). \<exists>t. suffix t f \<and> lower t = lower ext))"
proof -
  have "extension_allowed f (allowed_extensions env) \<longleftrightarrow>
      (\<exists>ext\<in>set (allowed_extensions env). \<exists>t. suffix t f \<and> lower t = lower ext)"
    by (simp add: extension_allowed_iff suffix_lower_iff allowed_extensions_lower)
  then show ?thesis
    by (simp add: extension_allowed_iff)
qed

theorem filter_accepts_iff_suffix_witness:
  "extension_allowed ''Invoice.PDF'' (allowed_extensions ''.pdf, .JPG'') \<and>
   suffix ''.pdf'' (lower ''Invoice.PDF'') \<and>
   \<not> extension_allowed ''notes.txt'' (allowed_extensions ''.pdf, .JPG'')"
proof -
  have a: "allowed_extensions ''.pdf, .JPG'' = [''.pdf'', ''.jpg'']" by code_simp
  have l: "lower ''Invoice.PDF'' = ''invoice.pdf''" "lower ''notes.txt'' = ''notes.txt''"
    by code_simp+
  have s: "suffix ''.pdf'' ''invoice.pdf''" "\<not> suffix ''.pdf'' ''notes.txt''"
    "\<not> suffix ''.jpg'' ''notes.txt''"
    by (simp_all add: suffix_def Cons_eq_append_conv) 
  show ?thesis
    using filter_accepts_iff_suffix [of "''Invoice.PDF''" "[''.pdf'', ''.jpg'']"]
      filter_accepts_iff_suffix [of "''notes.txt''" "[''.pdf'', ''.jpg'']"]
    unfolding a l using s by simp
qed

subsection \<open>One upload for each candidate and each name (C2)\<close>

















subsection \<open>The duplicate guard (C3)\<close>

text \<open>
  C3 at a file name with two backslashes. The script escapes the quotes of a name and
  leaves its backslashes as they are, so the storage service reads the two backslashes of
  the search as one and looks for another name: a file of exactly the given name lies
  untrashed in the destination, the guard reports that none exists, and the part is
  uploaded again. At a name that ends in a backslash the closing quote of the search is
  taken for a part of the name, and the guard raises instead of reporting.
\<close>

theorem guard_misses_backslash_name:
  "exists_in_folder demo_backslash_name ''id0'' (demo_world_with_file demo_backslash_name) \<and>
   fst (file_exists_in_drive demo_backslash_name ''id0'' (demo_world_with_file demo_backslash_name))
     = Inr False \<and>
   filter is_upload (new_calls (demo_world_with_file demo_backslash_name)
       (snd (process_part demo_b64 demo_gmail [''.pdf''] ''m1'' ''id0''
               (demo_part demo_backslash_name ''a1'') (demo_world_with_file demo_backslash_name))))
     = [upload_call demo_backslash_name ''hi'' ''id0''] \<and>
   exists_in_folder demo_trailing_backslash_name ''id0''
     (demo_world_with_file demo_trailing_backslash_name) \<and>
   fst (file_exists_in_drive demo_trailing_backslash_name ''id0''
          (demo_world_with_file demo_trailing_backslash_name))
     = Inl (ServiceError ''Invalid Value'')"
proof -
  have a: "exists_in_folder demo_backslash_name ''id0'' (demo_world_with_file demo_backslash_name)"
    by code_simp
  have b: "fst (file_exists_in_drive demo_backslash_name ''id0'' (demo_world_with_file demo_backslash_name))
     = Inr False"
    by code_simp
  have c: "filter is_upload (new_calls (demo_world_with_file demo_backslash_name)
       (snd (process_part demo_b64 demo_gmail [''.pdf''] ''m1'' ''id0''
               (demo_part demo_backslash_name ''a1'') (demo_world_with_file demo_backslash_name))))
     = [upload_call demo_backslash_name ''hi'' ''id0'']"
    by code_simp
  have d: "exists_in_folder demo_trailing_backslash_name ''id0''
     (demo_world_with_file demo_trailing_backslash_name)"
    by code_simp
  have e: "fst (file_exists_in_drive demo_trailing_backslash_name ''id0''
          (demo_world_with_file demo_trailing_backslash_name))
     = Inl (ServiceError ''Invalid Value'')"
    by code_simp
  show ?thesis using a b c d e by simp
qed

subsection \<open>Messages without parts (C4)\<close>

text \<open>
  C4. A message of the search result whose fetched representation has no payload or no
  parts raises nothing and causes no upload: the only effect is the recorded fetch of the
  message, and the driver goes on with the remaining messages.
\<close>

theorem message_without_parts_is_skipped:
  assumes "summary_id msg = Some mid"
    and "messages_get gmail mid = Inr m"
    and "message_payload m = None \<or> (\<exists>pl. message_payload m = Some pl \<and> payload_parts pl = None)"
  shows "process_message b64 gmail allowed folder msg w = (Inr (), issue (GmailMessagesGet mid) w) \<and>
         filter is_upload (new_calls w (issue (GmailMessagesGet mid) w)) = [] \<and>
         drive_files (issue (GmailMessagesGet mid) w) = drive_files w \<and>
         process_messages b64 gmail allowed folder (msg # rest) w
           = process_messages b64 gmail allowed folder rest (issue (GmailMessagesGet mid) w)"
proof -
  have step: "process_message b64 gmail allowed folder msg w = (Inr (), issue (GmailMessagesGet mid) w)"
    using assms by (auto simp: process_message_def Let_def)
  have "new_calls w (issue (GmailMessagesGet mid) w) = [GmailMessagesGet mid]"
    by (simp add: new_calls_def)
  then show ?thesis using step by simp
qed

theorem message_without_parts_is_skipped_witness:
  "summary_id \<lparr>summary_id = Some ''m2''\<rparr> = Some ''m2'' \<and>
   messages_get demo_gmail ''m2'' = Inr \<lparr>message_payload = None\<rparr> \<and>
   process_messages demo_b64 demo_gmail [''.pdf''] ''id0''
       [\<lparr>summary_id = Some ''m2''\<rparr>, \<lparr>summary_id = Some ''m3''\<rparr>] (demo_world demo_vars)
     = process_messages demo_b64 demo_gmail [''.pdf''] ''id0'' [\<lparr>summary_id = Some ''m3''\<rparr>]
         (issue (GmailMessagesGet ''m2'') (demo_world demo_vars))"
proof -
  have g: "messages_get demo_gmail ''m2'' = Inr \<lparr>message_payload = None\<rparr>"
    by (simp add: demo_gmail_def)
  show ?thesis
    using message_without_parts_is_skipped
      [where msg = "\<lparr>summary_id = Some ''m2''\<rparr>" and mid = "''m2''" and gmail = demo_gmail
         and m = "\<lparr>message_payload = None\<rparr>" and ?b64.0 = demo_b64 and allowed = "[''.pdf'']"
         and folder = "''id0''" and w = "demo_world demo_vars"
         and rest = "[\<lparr>summary_id = Some ''m3''\<rparr>]"] g
    by simp
qed

subsection \<open>The uploaded bytes (C5)\<close>

lemma process_part_uploads:
  "\<exists>cs. calls (snd (process_part b64 gmail allowed mid folder p w)) = calls w @ cs \<and>
     list_all (\<lambda>c. is_upload c \<longrightarrow> upload_of_part b64 gmail folder mid p c) cs"
proof -
  obtain cs where cs: "calls (snd (process_part b64 gmail allowed mid folder p w)) = calls w @ cs"
    and shape: "cs = [] \<or>
      (\<exists>fn body aid. part_filename p = Some fn \<and> fn \<noteq> [] \<and> part_body p = Some body \<and>
         body_attachmentId body = Some aid \<and> extension_allowed fn allowed \<and>
         (cs = [guard_call fn folder] \<or>
          cs = [guard_call fn folder, GmailAttachmentsGet mid aid] \<or>
          (\<exists>att d bs. attachments_get gmail mid aid = Inr att \<and> attachment_data att = Some d \<and>
             b64 d = Inr bs \<and>
             cs = [guard_call fn folder, GmailAttachmentsGet mid aid, upload_call fn bs folder])))"
    using process_part_new_calls by blast
  from shape have "list_all (\<lambda>c. is_upload c \<longrightarrow> upload_of_part b64 gmail folder mid p c) cs"
    by (auto simp: guard_call_def upload_of_part_def)
  with cs show ?thesis by blast
qed

lemma process_parts_uploads:
  "\<exists>cs. calls (snd (process_parts b64 gmail allowed mid folder ps w)) = calls w @ cs \<and>
     list_all (\<lambda>c. is_upload c \<longrightarrow> list_ex (\<lambda>p. upload_of_part b64 gmail folder mid p c) ps) cs"
proof (induction ps arbitrary: w)
  case Nil
  then show ?case by simp
next
  case (Cons p ps)
  obtain r w1 where step: "process_part b64 gmail allowed mid folder p w = (r, w1)"
    by (cases "process_part b64 gmail allowed mid folder p w")
  obtain c1 where c1: "calls w1 = calls w @ c1"
      "list_all (\<lambda>c. is_upload c \<longrightarrow> upload_of_part b64 gmail folder mid p c) c1"
    using process_part_uploads [of b64 gmail allowed mid folder p w] step by auto
  have c1': "list_all (\<lambda>c. is_upload c \<longrightarrow> list_ex (\<lambda>p. upload_of_part b64 gmail folder mid p c) (p # ps)) c1"
    using c1(2) by (rule list_all_weaken) simp
  show ?case
  proof (cases r)
    case (Inl e)
    then show ?thesis using step c1(1) c1' by auto
  next
    case (Inr u)
    obtain c2 where c2: "calls (snd (process_parts b64 gmail allowed mid folder ps w1)) = calls w1 @ c2"
        "list_all (\<lambda>c. is_upload c \<longrightarrow> list_ex (\<lambda>p. upload_of_part b64 gmail folder mid p c) ps) c2"
      using Cons.IH [of w1] by auto
    have c2': "list_all (\<lambda>c. is_upload c \<longrightarrow> list_ex (\<lambda>p. upload_of_part b64 gmail folder mid p c) (p # ps)) c2"
      using c2(2) by (rule list_all_weaken) simp
    have "calls (snd (process_parts b64 gmail allowed mid folder (p # ps) w)) = calls w @ (c1 @ c2)"
      using Inr step c1(1) c2(1) by simp
    then show ?thesis using c1' c2' by (metis list_all_append)
  qed
qed

lemma process_message_uploads:
  "\<exists>cs. calls (snd (process_message b64 gmail allowed folder msg w)) = calls w @ cs \<and>
     list_all (\<lambda>c. is_upload c \<longrightarrow> upload_of_message b64 gmail folder msg c) cs"
proof (cases "summary_id msg")
  case None
  then show ?thesis by (simp add: process_message_def)
next
  case (Some mid)
  let ?w1 = "issue (GmailMessagesGet mid) w"
  show ?thesis
  proof (cases "parts_of gmail msg = [] \<or> (\<exists>e. messages_get gmail mid = Inl e)")
    case True
    then have "calls (snd (process_message b64 gmail allowed folder msg w)) = calls w @ [GmailMessagesGet mid]"
      using Some
      by (auto simp: process_message_def parts_of_def Let_def
          split: sum.splits option.splits)
    then show ?thesis by force
  next
    case False
    then obtain m pl where m: "messages_get gmail mid = Inr m" "message_payload m = Some pl"
        "payload_parts pl = Some (parts_of gmail msg)"
      using Some by (auto simp: parts_of_def split: sum.splits option.splits)
    then have eq: "process_message b64 gmail allowed folder msg w
                 = process_parts b64 gmail allowed mid folder (parts_of gmail msg) ?w1"
      using Some by (simp add: process_message_def Let_def)
    obtain c2 where c2: "calls (snd (process_parts b64 gmail allowed mid folder (parts_of gmail msg) ?w1))
                           = calls ?w1 @ c2"
        "list_all (\<lambda>c. is_upload c \<longrightarrow>
            list_ex (\<lambda>p. upload_of_part b64 gmail folder mid p c) (parts_of gmail msg)) c2"
      using process_parts_uploads by blast
    have "calls (snd (process_message b64 gmail allowed folder msg w)) = calls w @ (GmailMessagesGet mid # c2)"
      by (simp add: eq c2)
    moreover have "list_all (\<lambda>c. is_upload c \<longrightarrow> upload_of_message b64 gmail folder msg c)
                     (GmailMessagesGet mid # c2)"
      using c2(2) Some by (simp add: upload_of_message_def)
    ultimately show ?thesis by blast
  qed
qed

lemma process_messages_uploads:
  "\<exists>cs. calls (snd (process_messages b64 gmail allowed folder msgs w)) = calls w @ cs \<and>
     list_all (\<lambda>c. is_upload c \<longrightarrow> list_ex (\<lambda>msg. upload_of_message b64 gmail folder msg c) msgs) cs"
proof (induction msgs arbitrary: w)
  case Nil
  then show ?case by simp
next
  case (Cons msg rest)
  obtain r w1 where step: "process_message b64 gmail allowed folder msg w = (r, w1)"
    by (cases "process_message b64 gmail allowed folder msg w")
  obtain c1 where c1: "calls w1 = calls w @ c1"
      "list_all (\<lambda>c. is_upload c \<longrightarrow> upload_of_message b64 gmail folder msg c) c1"
    using process_message_uploads [of b64 gmail allowed folder msg w] step by auto
  have c1': "list_all (\<lambda>c. is_upload c \<longrightarrow>
               list_ex (\<lambda>msg. upload_of_message b64 gmail folder msg c) (msg # rest)) c1"
    using c1(2) by (rule list_all_weaken) simp
  show ?case
  proof (cases r)
    case (Inl e)
    then show ?thesis using step c1(1) c1' by auto
  next
    case (Inr u)
    obtain c2 where c2: "calls (snd (process_messages b64 gmail allowed folder rest w1)) = calls w1 @ c2"
        "list_all (\<lambda>c. is_upload c \<longrightarrow>
           list_ex (\<lambda>msg. upload_of_message b64 gmail folder msg c) rest) c2"
      using Cons.IH [of w1] by auto
    have c2': "list_all (\<lambda>c. is_upload c \<longrightarrow>
               list_ex (\<lambda>msg. upload_of_message b64 gmail folder msg c) (msg # rest)) c2"
      using c2(2) by (rule list_all_weaken) simp
    have "calls (snd (process_messages b64 gmail allowed folder (msg # rest) w)) = calls w @ (c1 @ c2)"
      using Inr step c1(1) c2(1) by simp
    then show ?thesis using c1' c2' by (metis list_all_append)
  qed
qed

lemma download_attachments_uploads:
  "\<exists>cs. calls (snd (download_attachments b64 gmail query folder w)) = calls w @ cs \<and>
     list_all (\<lambda>c. is_upload c \<longrightarrow> upload_of_search b64 gmail folder query c) cs"
proof (cases "search_result gmail query = []")
  case True
  then have "calls (snd (download_attachments b64 gmail query folder w))
               = calls w @ [GmailMessagesList query]"
    by (auto simp: download_attachments_def search_result_def Let_def
        split: sum.splits option.splits)
  then show ?thesis by force
next
  case False
  let ?w3 = "print (''Found '' @ show_nat (length (search_result gmail query))
                      @ '' messages. Processing...'')
               (issue (GmailMessagesList query)
                  (print (''Searching for messages with query: '' @ query) w))"
  let ?allowed = "allowed_extensions (getenv_default w ''ALLOWED_EXTENSIONS'')"
  from False have eq: "download_attachments b64 gmail query folder w
      = process_messages b64 gmail ?allowed folder (search_result gmail query) ?w3"
    by (auto simp: download_attachments_def search_result_def Let_def
        split: sum.splits option.splits)
  obtain cs where cs: "calls (snd (process_messages b64 gmail ?allowed folder (search_result gmail query) ?w3))
                         = calls ?w3 @ cs"
      "list_all (\<lambda>c. is_upload c \<longrightarrow>
          list_ex (\<lambda>msg. upload_of_message b64 gmail folder msg c) (search_result gmail query)) cs"
    using process_messages_uploads by blast
  have "calls (snd (download_attachments b64 gmail query folder w))
          = calls w @ (GmailMessagesList query # cs)"
    unfolding eq cs(1) by simp
  moreover have "list_all (\<lambda>c. is_upload c \<longrightarrow> upload_of_search b64 gmail folder query c)
                   (GmailMessagesList query # cs)"
    using cs(2) by (simp add: upload_of_search_def)
  ultimately show ?thesis by blast
qed

text \<open>
  C5. Every upload that the processing of a part issues hands over the bytes that the
  decoder returns for the \<^verbatim>\<open>data\<close> field of the attachment fetched for that part, under
  the file name of the part, into the destination folder; nothing else is done to the
  bytes. The same holds for every upload of a whole run, for some part of some message of
  the search result.
\<close>

theorem upload_is_decoded_attachment:
  "(c \<in> set (new_calls w (snd (process_part b64 gmail allowed mid folder p w))) \<and> is_upload c
      \<longrightarrow> upload_of_part b64 gmail folder mid p c) \<and>
   (c \<in> set (new_calls w (snd (download_attachments b64 gmail query folder w))) \<and> is_upload c
      \<longrightarrow> upload_of_search b64 gmail folder query c)"
proof -
  obtain c1 where c1: "calls (snd (process_part b64 gmail allowed mid folder p w)) = calls w @ c1"
      "list_all (\<lambda>c. is_upload c \<longrightarrow> upload_of_part b64 gmail folder mid p c) c1"
    using process_part_uploads by blast
  obtain c2 where c2: "calls (snd (download_attachments b64 gmail query folder w)) = calls w @ c2"
      "list_all (\<lambda>c. is_upload c \<longrightarrow> upload_of_search b64 gmail folder query c) c2"
    using download_attachments_uploads by blast
  show ?thesis
    using c1(2) c2(2)
    by (simp add: new_calls_append [OF c1(1)] new_calls_append [OF c2(1)] list_all_iff)
qed

theorem upload_is_decoded_attachment_witness:
  "upload_call ''Invoice.PDF'' ''hi'' ''id0''
     \<in> set (new_calls (demo_world demo_vars)
            (snd (process_part demo_b64 demo_gmail [''.pdf''] ''m1'' ''id0''
                    (demo_part ''Invoice.PDF'' ''a1'') (demo_world demo_vars)))) \<and>
   is_upload (upload_call ''Invoice.PDF'' ''hi'' ''id0'') \<and>
   attachments_get demo_gmail ''m1'' ''a1'' = Inr \<lparr>attachment_data = Some ''aGk=''\<rparr> \<and>
   demo_b64 ''aGk='' = Inr ''hi'' \<and>
   upload_of_part demo_b64 demo_gmail ''id0'' ''m1'' (demo_part ''Invoice.PDF'' ''a1'')
     (upload_call ''Invoice.PDF'' ''hi'' ''id0'')"
proof -
  have issued: "upload_call ''Invoice.PDF'' ''hi'' ''id0''
     \<in> set (new_calls (demo_world demo_vars)
            (snd (process_part demo_b64 demo_gmail [''.pdf''] ''m1'' ''id0''
                    (demo_part ''Invoice.PDF'' ''a1'') (demo_world demo_vars))))"
    by code_simp
  have up: "is_upload (upload_call ''Invoice.PDF'' ''hi'' ''id0'')"
    by (simp add: upload_call_def)
  have fetched: "attachments_get demo_gmail ''m1'' ''a1'' = Inr \<lparr>attachment_data = Some ''aGk=''\<rparr>"
    "demo_b64 ''aGk='' = Inr ''hi''"
    by (simp_all add: demo_gmail_def demo_b64_def)
  show ?thesis
    using upload_is_decoded_attachment
      [where c = "upload_call ''Invoice.PDF'' ''hi'' ''id0''" and w = "demo_world demo_vars"
         and ?b64.0 = demo_b64 and gmail = demo_gmail and allowed = "[''.pdf'']" and mid = "''m1''"
         and folder = "''id0''" and p = "demo_part ''Invoice.PDF'' ''a1''"]
      issued up fetched
    by simp
qed

subsection \<open>Destination preparation (C6)\<close>

text \<open>A property of calls that the guard's search, the fetches and the uploads all have
  holds for every call of the sync.\<close>

lemma process_part_all_calls:
  assumes "\<And>fn. Q (guard_call fn folder)" and "\<And>m a. Q (GmailAttachmentsGet m a)"
    and "\<And>fn bs. Q (upload_call fn bs folder)"
  shows "\<exists>cs. calls (snd (process_part b64 gmail allowed mid folder p w)) = calls w @ cs \<and> list_all Q cs"
proof -
  obtain cs where cs: "calls (snd (process_part b64 gmail allowed mid folder p w)) = calls w @ cs"
    and shape: "cs = [] \<or>
      (\<exists>fn body aid. part_filename p = Some fn \<and> fn \<noteq> [] \<and> part_body p = Some body \<and>
         body_attachmentId body = Some aid \<and> extension_allowed fn allowed \<and>
         (cs = [guard_call fn folder] \<or>
          cs = [guard_call fn folder, GmailAttachmentsGet mid aid] \<or>
          (\<exists>att d bs. attachments_get gmail mid aid = Inr att \<and> attachment_data att = Some d \<and>
             b64 d = Inr bs \<and>
             cs = [guard_call fn folder, GmailAttachmentsGet mid aid, upload_call fn bs folder])))"
    using process_part_new_calls by blast
  from shape have "list_all Q cs" using assms by auto
  with cs show ?thesis by blast
qed

lemma process_parts_all_calls:
  assumes "\<And>fn. Q (guard_call fn folder)" and "\<And>m a. Q (GmailAttachmentsGet m a)"
    and "\<And>fn bs. Q (upload_call fn bs folder)"
  shows "\<exists>cs. calls (snd (process_parts b64 gmail allowed mid folder ps w)) = calls w @ cs \<and> list_all Q cs"
proof (induction ps arbitrary: w)
  case Nil
  then show ?case by simp
next
  case (Cons p ps)
  obtain r w1 where step: "process_part b64 gmail allowed mid folder p w = (r, w1)"
    by (cases "process_part b64 gmail allowed mid folder p w")
  obtain c1 where c1: "calls w1 = calls w @ c1" "list_all Q c1"
    using process_part_all_calls [of Q folder b64 gmail allowed mid p w] assms step by auto
  show ?case
  proof (cases r)
    case (Inl e)
    then show ?thesis using step c1 by auto
  next
    case (Inr u)
    obtain c2 where c2: "calls (snd (process_parts b64 gmail allowed mid folder ps w1)) = calls w1 @ c2"
        "list_all Q c2"
      using Cons.IH [of w1] by auto
    have "calls (snd (process_parts b64 gmail allowed mid folder (p # ps) w)) = calls w @ (c1 @ c2)"
      using Inr step c1(1) c2(1) by simp
    then show ?thesis using c1(2) c2(2) by (metis list_all_append)
  qed
qed

lemma process_message_all_calls:
  assumes "\<And>fn. Q (guard_call fn folder)" and "\<And>m a. Q (GmailAttachmentsGet m a)"
    and "\<And>fn bs. Q (upload_call fn bs folder)" and "\<And>m. Q (GmailMessagesGet m)"
  shows "\<exists>cs. calls (snd (process_message b64 gmail allowed folder msg w)) = calls w @ cs \<and> list_all Q cs"
proof (cases "summary_id msg")
  case None
  then show ?thesis by (simp add: process_message_def)
next
  case (Some mid)
  let ?w1 = "issue (GmailMessagesGet mid) w"
  show ?thesis
  proof (cases "parts_of gmail msg = [] \<or> (\<exists>e. messages_get gmail mid = Inl e)")
    case True
    then have "calls (snd (process_message b64 gmail allowed folder msg w)) = calls w @ [GmailMessagesGet mid]"
      using Some
      by (auto simp: process_message_def parts_of_def Let_def
          split: sum.splits option.splits)
    then show ?thesis using assms(4) by force
  next
    case False
    then obtain m pl where m: "messages_get gmail mid = Inr m" "message_payload m = Some pl"
        "payload_parts pl = Some (parts_of gmail msg)"
      using Some by (auto simp: parts_of_def split: sum.splits option.splits)
    then have eq: "process_message b64 gmail allowed folder msg w
                 = process_parts b64 gmail allowed mid folder (parts_of gmail msg) ?w1"
      using Some by (simp add: process_message_def Let_def)
    obtain c2 where c2: "calls (snd (process_parts b64 gmail allowed mid folder (parts_of gmail msg) ?w1))
                           = calls ?w1 @ c2" "list_all Q c2"
      using process_parts_all_calls [of Q folder b64 gmail allowed mid "parts_of gmail msg" ?w1] assms(1-3)
      by blast
    have "calls (snd (process_message b64 gmail allowed folder msg w)) = calls w @ (GmailMessagesGet mid # c2)"
      by (simp add: eq c2)
    moreover have "list_all Q (GmailMessagesGet mid # c2)"
      using c2(2) assms(4) by simp
    ultimately show ?thesis by blast
  qed
qed

lemma process_messages_all_calls:
  assumes "\<And>fn. Q (guard_call fn folder)" and "\<And>m a. Q (GmailAttachmentsGet m a)"
    and "\<And>fn bs. Q (upload_call fn bs folder)" and "\<And>m. Q (GmailMessagesGet m)"
  shows "\<exists>cs. calls (snd (process_messages b64 gmail allowed folder msgs w)) = calls w @ cs \<and> list_all Q cs"
proof (induction msgs arbitrary: w)
  case Nil
  then show ?case by simp
next
  case (Cons msg rest)
  obtain r w1 where step: "process_message b64 gmail allowed folder msg w = (r, w1)"
    by (cases "process_message b64 gmail allowed folder msg w")
  obtain c1 where c1: "calls w1 = calls w @ c1" "list_all Q c1"
    using process_message_all_calls [of Q folder b64 gmail allowed msg w] assms step by auto
  show ?case
  proof (cases r)
    case (Inl e)
    then show ?thesis using step c1 by auto
  next
    case (Inr u)
    obtain c2 where c2: "calls (snd (process_messages b64 gmail allowed folder rest w1)) = calls w1 @ c2"
        "list_all Q c2"
      using Cons.IH [of w1] by auto
    have "calls (snd (process_messages b64 gmail allowed folder (msg # rest) w)) = calls w @ (c1 @ c2)"
      using Inr step c1(1) c2(1) by simp
    then show ?thesis using c1(2) c2(2) by (metis list_all_append)
  qed
qed

lemma download_attachments_all_calls:
  assumes "\<And>fn. Q (guard_call fn folder)" and "\<And>m a. Q (GmailAttachmentsGet m a)"
    and "\<And>fn bs. Q (upload_call fn bs folder)" and "\<And>m. Q (GmailMessagesGet m)"
    and "Q (GmailMessagesList query)"
  shows "\<exists>cs. calls (snd (download_attachments b64 gmail query folder w)) = calls w @ cs \<and> list_all Q cs"
proof (cases "search_result gmail query = []")
  case True
  then have "calls (snd (download_attachments b64 gmail query folder w))
               = calls w @ [GmailMessagesList query]"
    by (auto simp: download_attachments_def search_result_def Let_def
        split: sum.splits option.splits)
  then show ?thesis using assms(5) by force
next
  case False
  let ?w3 = "print (''Found '' @ show_nat (length (search_result gmail query))
                      @ '' messages. Processing...'')
               (issue (GmailMessagesList query)
                  (print (''Searching for messages with query: '' @ query) w))"
  let ?allowed = "allowed_extensions (getenv_default w ''ALLOWED_EXTENSIONS'')"
  from False have eq: "download_attachments b64 gmail query folder w
      = process_messages b64 gmail ?allowed folder (search_result gmail query) ?w3"
    by (auto simp: download_attachments_def search_result_def Let_def
        split: sum.splits option.splits)
  obtain cs where cs: "calls (snd (process_messages b64 gmail ?allowed folder (search_result gmail query) ?w3))
                         = calls ?w3 @ cs" "list_all Q cs"
    using process_messages_all_calls [of Q folder b64 gmail ?allowed "search_result gmail query" ?w3]
      assms(1-4) by blast
  have "calls (snd (download_attachments b64 gmail query folder w))
          = calls w @ (GmailMessagesList query # cs)"
    unfolding eq cs(1) by simp
  moreover have "list_all Q (GmailMessagesList query # cs)"
    using cs(2) assms(5) by simp
  ultimately show ?thesis by blast
qed

lemma download_attachments_creates_no_folder:
  "\<exists>cs. calls (snd (download_attachments b64 gmail query folder w)) = calls w @ cs \<and>
        filter is_folder_create cs = []"
proof -
  obtain cs where cs: "calls (snd (download_attachments b64 gmail query folder w)) = calls w @ cs"
      "list_all (\<lambda>c. \<not> is_folder_create c) cs"
    using download_attachments_all_calls [of "\<lambda>c. \<not> is_folder_create c" folder query b64 gmail w]
    by (auto simp: guard_call_def upload_call_def)
  from cs(2) have "filter is_folder_create cs = []"
    by (simp add: filter_empty_conv list_all_iff)
  with cs(1) show ?thesis by blast
qed

lemma main_folder_creations:
  assumes "fst (get_credentials idp w) = Inr creds"
  shows "filter is_folder_create (new_calls w (main idp b64 gmail w))
           = [folder_call (strftime_m_Y (now_month w) (now_year w))]"
proof -
  obtain w1 where g: "get_credentials idp w = (Inr creds, w1)"
    using assms by (cases "get_credentials idp w") auto
  have f: "calls w1 = calls w" "now_month w1 = now_month w" "now_year w1 = now_year w"
    using get_credentials_frame [OF g] by auto
  let ?c = "folder_call (strftime_m_Y (now_month w) (now_year w))"
  obtain r w2 where c: "create_drive_folder w1 = (r, w2)"
    by (cases "create_drive_folder w1")
  have c2: "calls w2 = calls w @ [?c]"
    using create_drive_folder_calls [of w1] c f by simp
  have fc: "is_folder_create ?c" by (simp add: folder_call_def)
  have "\<exists>cs. calls (snd (main_body idp b64 gmail w)) = calls w @ ?c # cs \<and>
             filter is_folder_create cs = []"
  proof (cases r)
    case (Inl e)
    then show ?thesis using g c c2 by (simp add: main_body_def)
  next
    case (Inr folder_id)
    show ?thesis
    proof (cases "environ w2 ''GMAIL_SEARCH_QUERY'' = None \<or> environ w2 ''GMAIL_SEARCH_QUERY'' = Some []")
      case True
      then show ?thesis using g c c2 Inr by (auto simp: main_body_def)
    next
      case False
      then obtain query where q: "environ w2 ''GMAIL_SEARCH_QUERY'' = Some query" "query \<noteq> []"
        by auto
      have eq: "main_body idp b64 gmail w = download_attachments b64 gmail query folder_id w2"
        using g c Inr q by (simp add: main_body_def)
      obtain cs where cs: "calls (snd (download_attachments b64 gmail query folder_id w2)) = calls w2 @ cs"
          "filter is_folder_create cs = []"
        using download_attachments_creates_no_folder by blast
      show ?thesis unfolding eq using cs c2 by simp
    qed
  qed
  then obtain cs where "calls (main idp b64 gmail w) = calls w @ ?c # cs"
      "filter is_folder_create cs = []"
    unfolding main_calls by blast
  then show ?thesis using fc by (simp add: new_calls_append)
qed

text \<open>
  C6. Destination preparation issues exactly one call, the creation of a folder named by
  the month and the year of the clock as \<^verbatim>\<open>MM-YYYY\<close>; it searches for nothing first.
  Unless the storage service refuses the call, a new folder of that name is added to the
  files of the service whatever they hold already, also a folder of the same name. A run
  that obtains its credentials creates exactly one folder.
\<close>

theorem destination_preparation_always_creates:
  "new_calls w (snd (create_drive_folder w))
     = [folder_call (strftime_m_Y (now_month w) (now_year w))] \<and>
   (drive_fault w (folder_call (strftime_m_Y (now_month w) (now_year w))) = None \<longrightarrow>
      drive_files (snd (create_drive_folder w))
        = drive_files w @
            [\<lparr>df_id = ''id'' @ show_nat (drive_counter w),
              df_name = strftime_m_Y (now_month w) (now_year w),
              df_mimeType = ''application/vnd.google-apps.folder'',
              df_parents = [''root''], df_trashed = False, df_media = None\<rparr>]) \<and>
   (1 \<le> now_month w \<and> now_month w \<le> 12 \<and> 1000 \<le> now_year w \<and> now_year w < 10000 \<longrightarrow>
      strftime_m_Y (now_month w) (now_year w)
        = [digit_char (now_month w div 10), digit_char (now_month w mod 10), CHR ''-'',
           digit_char (now_year w div 1000), digit_char (now_year w div 100 mod 10),
           digit_char (now_year w div 10 mod 10), digit_char (now_year w mod 10)]) \<and>
   (fst (get_credentials idp w) = Inr creds \<longrightarrow>
      filter is_folder_create (new_calls w (main idp b64 gmail w))
        = [folder_call (strftime_m_Y (now_month w) (now_year w))])"
proof -
  have "new_calls w (snd (create_drive_folder w))
     = [folder_call (strftime_m_Y (now_month w) (now_year w))]"
    using create_drive_folder_calls by (rule new_calls_append)
  then show ?thesis
    using strftime_m_Y_format [of "now_month w" "now_year w"]
      main_folder_creations [of idp w creds b64 gmail]
    by (auto simp: create_drive_folder_ok)
qed

theorem destination_preparation_always_creates_witness:
  "drive_fault demo_world_with_folder (folder_call ''11-2026'') = None \<and>
   strftime_m_Y (now_month demo_world_with_folder) (now_year demo_world_with_folder) = ''11-2026'' \<and>
   fst (get_credentials demo_idp demo_world_with_folder)
     = Inr \<lparr>cred_valid = True, cred_expired = False, cred_refresh_token = Some ''r'', cred_json = ''{}''\<rparr> \<and>
   map df_name (drive_files demo_world_with_folder) = [''11-2026''] \<and>
   map df_name (drive_files (snd (create_drive_folder demo_world_with_folder))) = [''11-2026'', ''11-2026''] \<and>
   filter is_folder_create
       (new_calls demo_world_with_folder (main demo_idp demo_b64 demo_gmail demo_world_with_folder))
     = [folder_call ''11-2026'']"
proof -
  have name: "strftime_m_Y (now_month demo_world_with_folder) (now_year demo_world_with_folder) = ''11-2026''"
    by code_simp
  have creds: "fst (get_credentials demo_idp demo_world_with_folder)
     = Inr \<lparr>cred_valid = True, cred_expired = False, cred_refresh_token = Some ''r'', cred_json = ''{}''\<rparr>"
    by code_simp
  have fault: "drive_fault demo_world_with_folder c = None" for c
    by (simp add: demo_world_with_folder_def demo_world_def)
  have old: "map df_name (drive_files demo_world_with_folder) = [''11-2026'']"
    by (simp add: demo_world_with_folder_def demo_world_def)
  show ?thesis
    using destination_preparation_always_creates
      [where w = demo_world_with_folder and idp = demo_idp and ?b64.0 = demo_b64 and gmail = demo_gmail
         and creds = "\<lparr>cred_valid = True, cred_expired = False, cred_refresh_token = Some ''r'',
                         cred_json = ''{}''\<rparr>"]
      creds fault old
    unfolding name by simp
qed

subsection \<open>A run without a search query (C7)\<close>

text \<open>
  C7. When \<^verbatim>\<open>GMAIL_SEARCH_QUERY\<close> is absent, a run issues no call to the mail service, and
  no call to the storage service but the creation of the folder. When the credentials
  were obtained and the folder was created, the creation is the one call of the run, and
  the run ends by printing the configuration error.
\<close>

theorem missing_query_stops_run:
  assumes "environ w ''GMAIL_SEARCH_QUERY'' = None"
  shows "filter is_gmail_call (new_calls w (main idp b64 gmail w)) = [] \<and>
         (new_calls w (main idp b64 gmail w) = [] \<or>
          new_calls w (main idp b64 gmail w) = [folder_call (strftime_m_Y (now_month w) (now_year w))]) \<and>
         (fst (get_credentials idp w) = Inr creds \<and>
          drive_fault w (folder_call (strftime_m_Y (now_month w) (now_year w))) = None \<longrightarrow>
            new_calls w (main idp b64 gmail w) = [folder_call (strftime_m_Y (now_month w) (now_year w))] \<and>
            stdout (main idp b64 gmail w)
              = stdout (snd (get_credentials idp w)) @
                  [''Created folder '' @ [CHR 0x27] @ strftime_m_Y (now_month w) (now_year w) @ [CHR 0x27]
                     @ '' in Google Drive with ID: '' @ ''id'' @ show_nat (drive_counter w),
                   ''Error: GMAIL_SEARCH_QUERY not found in .env file.''])"
proof -
  obtain r w1 where g: "get_credentials idp w = (r, w1)"
    by (cases "get_credentials idp w")
  have f: "calls w1 = calls w" "now_month w1 = now_month w" "now_year w1 = now_year w"
    "environ w1 = environ w" "drive_fault w1 = drive_fault w" "drive_counter w1 = drive_counter w"
    using get_credentials_frame [OF g] by auto
  let ?c = "folder_call (strftime_m_Y (now_month w) (now_year w))"
  have fc: "\<not> is_gmail_call ?c" by (simp add: folder_call_def)
  show ?thesis
  proof (cases r)
    case (Inl e)
    then have "calls (main idp b64 gmail w) = calls w"
      using g f by (simp add: main_calls main_body_def)
    then have "new_calls w (main idp b64 gmail w) = []"
      by (simp add: new_calls_def)
    then show ?thesis using Inl g by simp
  next
    case (Inr c)
    obtain r2 w2 where c: "create_drive_folder w1 = (r2, w2)"
      by (cases "create_drive_folder w1")
    have c2: "calls w2 = calls w @ [?c]"
      using create_drive_folder_calls [of w1] c f by simp
    have e2: "environ w2 ''GMAIL_SEARCH_QUERY'' = None"
      using create_drive_folder_environ [of w1] c f assms by simp
    have "calls (snd (main_body idp b64 gmail w)) = calls w @ [?c]"
      using g Inr c c2 e2 by (cases r2) (simp_all add: main_body_def)
    then have n: "new_calls w (main idp b64 gmail w) = [?c]"
      unfolding main_calls [symmetric] by (rule new_calls_append)
    have "stdout (main idp b64 gmail w)
              = stdout w1 @
                  [''Created folder '' @ [CHR 0x27] @ strftime_m_Y (now_month w) (now_year w) @ [CHR 0x27]
                     @ '' in Google Drive with ID: '' @ ''id'' @ show_nat (drive_counter w),
                   ''Error: GMAIL_SEARCH_QUERY not found in .env file.'']"
      if "drive_fault w ?c = None"
    proof -
      have ok: "drive_fault w1 (folder_call (strftime_m_Y (now_month w1) (now_year w1))) = None"
        using that f by simp
      show ?thesis
        using g Inr f assms
        by (simp add: main_def main_body_def create_drive_folder_ok [OF ok])
    qed
    then show ?thesis using n fc g by simp
  qed
qed

theorem missing_query_stops_run_witness:
  "environ (demo_world (butlast demo_vars)) ''GMAIL_SEARCH_QUERY'' = None \<and>
   new_calls (demo_world (butlast demo_vars))
       (main demo_idp demo_b64 demo_gmail (demo_world (butlast demo_vars)))
     = [folder_call ''11-2026''] \<and>
   stdout (main demo_idp demo_b64 demo_gmail (demo_world (butlast demo_vars)))
     = [''Created folder '' @ [CHR 0x27] @ ''11-2026'' @ [CHR 0x27] @ '' in Google Drive with ID: id0'',
        ''Error: GMAIL_SEARCH_QUERY not found in .env file.'']"
proof -
  have unset: "environ (demo_world (butlast demo_vars)) ''GMAIL_SEARCH_QUERY'' = None"
    by (simp add: demo_world_def demo_vars_def)
  have name: "strftime_m_Y (now_month (demo_world (butlast demo_vars)))
                (now_year (demo_world (butlast demo_vars))) = ''11-2026''"
    "show_nat (drive_counter (demo_world (butlast demo_vars))) = ''0''"
    by code_simp+
  have creds: "fst (get_credentials demo_idp (demo_world (butlast demo_vars)))
     = Inr \<lparr>cred_valid = True, cred_expired = False, cred_refresh_token = Some ''r'', cred_json = ''{}''\<rparr>"
    "stdout (snd (get_credentials demo_idp (demo_world (butlast demo_vars)))) = []"
    by code_simp+
  have fault: "drive_fault (demo_world (butlast demo_vars)) c = None" for c
    by (simp add: demo_world_def)
  show ?thesis
    using missing_query_stops_run
      [where w = "demo_world (butlast demo_vars)" and idp = demo_idp and ?b64.0 = demo_b64
         and gmail = demo_gmail
         and creds = "\<lparr>cred_valid = True, cred_expired = False, cred_refresh_token = Some ''r'',
                         cred_json = ''{}''\<rparr>", OF unset]
      unset creds fault
    unfolding name by simp
qed

subsection \<open>The order of processing (C8)\<close>

text \<open>One part: no message is fetched, and at most the part's own name is uploaded.\<close>

lemma process_part_trace:
  "\<exists>cs. calls (snd (process_part b64 gmail allowed mid folder p w)) = calls w @ cs \<and>
     fetched_ids cs = [] \<and> subseq (uploaded_names cs) (List.map_filter part_filename [p])"
proof -
  obtain cs where cs: "calls (snd (process_part b64 gmail allowed mid folder p w)) = calls w @ cs"
    and shape: "cs = [] \<or>
      (\<exists>fn body aid. part_filename p = Some fn \<and> fn \<noteq> [] \<and> part_body p = Some body \<and>
         body_attachmentId body = Some aid \<and> extension_allowed fn allowed \<and>
         (cs = [guard_call fn folder] \<or>
          cs = [guard_call fn folder, GmailAttachmentsGet mid aid] \<or>
          (\<exists>att d bs. attachments_get gmail mid aid = Inr att \<and> attachment_data att = Some d \<and>
             b64 d = Inr bs \<and>
             cs = [guard_call fn folder, GmailAttachmentsGet mid aid, upload_call fn bs folder])))"
    using process_part_new_calls by blast
  from shape have "fetched_ids cs = [] \<and> subseq (uploaded_names cs) (List.map_filter part_filename [p])"
    by (auto simp: guard_call_def upload_call_def)
  with cs show ?thesis by blast
qed

lemma process_parts_trace:
  "\<exists>cs. calls (snd (process_parts b64 gmail allowed mid folder ps w)) = calls w @ cs \<and>
     fetched_ids cs = [] \<and> subseq (uploaded_names cs) (List.map_filter part_filename ps)"
proof (induction ps arbitrary: w)
  case Nil
  then show ?case by simp
next
  case (Cons p ps)
  obtain r w1 where step: "process_part b64 gmail allowed mid folder p w = (r, w1)"
    by (cases "process_part b64 gmail allowed mid folder p w")
  obtain c1 where c1: "calls w1 = calls w @ c1" "fetched_ids c1 = []"
      "subseq (uploaded_names c1) (List.map_filter part_filename [p])"
    using process_part_trace [of b64 gmail allowed mid folder p w] step by auto
  have mf: "List.map_filter part_filename (p # ps)
              = List.map_filter part_filename [p] @ List.map_filter part_filename ps"
    by (simp add: List.map_filter_def)
  show ?case
  proof (cases r)
    case (Inl e)
    then have "process_parts b64 gmail allowed mid folder (p # ps) w = (Inl e, w1)"
      using step by simp
    moreover have "subseq (uploaded_names c1) (List.map_filter part_filename (p # ps))"
      unfolding mf using c1(3) by (metis list_emb_append_mono list_emb_Nil append_Nil2)
    ultimately show ?thesis using c1 by auto
  next
    case (Inr u)
    then have eq: "process_parts b64 gmail allowed mid folder (p # ps) w
                 = process_parts b64 gmail allowed mid folder ps w1"
      using step by simp
    obtain c2 where c2: "calls (snd (process_parts b64 gmail allowed mid folder ps w1)) = calls w1 @ c2"
        "fetched_ids c2 = []" "subseq (uploaded_names c2) (List.map_filter part_filename ps)"
      using Cons.IH [of w1] by auto
    have "subseq (uploaded_names (c1 @ c2)) (List.map_filter part_filename (p # ps))"
      unfolding mf uploaded_names_append using c1(3) c2(3) by (rule list_emb_append_mono)
    moreover have "fetched_ids (c1 @ c2) = []"
      by (simp add: fetched_ids_append c1 c2)
    moreover have "calls (snd (process_parts b64 gmail allowed mid folder (p # ps) w)) = calls w @ (c1 @ c2)"
      by (simp add: eq c1 c2 del: process_parts.simps)
    ultimately show ?thesis by blast
  qed
qed

lemma process_message_trace:
  "\<exists>cs. calls (snd (process_message b64 gmail allowed folder msg w)) = calls w @ cs \<and>
     fetched_ids cs = List.map_filter summary_id [msg] \<and>
     subseq (uploaded_names cs) (List.map_filter part_filename (parts_of gmail msg))"
proof (cases "summary_id msg")
  case None
  then show ?thesis
    by (simp add: process_message_def)
next
  case (Some mid)
  let ?w1 = "issue (GmailMessagesGet mid) w"
  have ids: "List.map_filter summary_id [msg] = [mid]"
    using Some by simp
  show ?thesis
  proof (cases "parts_of gmail msg = [] \<or> (\<exists>e. messages_get gmail mid = Inl e)")
    case True
    then have "calls (snd (process_message b64 gmail allowed folder msg w)) = calls w @ [GmailMessagesGet mid]"
      using Some
      by (auto simp: process_message_def parts_of_def Let_def
          split: sum.splits option.splits)
    then show ?thesis using ids by force
  next
    case False
    then obtain m pl where m: "messages_get gmail mid = Inr m" "message_payload m = Some pl"
        "payload_parts pl = Some (parts_of gmail msg)"
      using Some by (auto simp: parts_of_def split: sum.splits option.splits)
    then have eq: "process_message b64 gmail allowed folder msg w
                 = process_parts b64 gmail allowed mid folder (parts_of gmail msg) ?w1"
      using Some by (simp add: process_message_def Let_def)
    obtain c2 where c2: "calls (snd (process_parts b64 gmail allowed mid folder (parts_of gmail msg) ?w1))
                           = calls ?w1 @ c2"
        "fetched_ids c2 = []" "subseq (uploaded_names c2) (List.map_filter part_filename (parts_of gmail msg))"
      using process_parts_trace by blast
    have "calls (snd (process_message b64 gmail allowed folder msg w)) = calls w @ (GmailMessagesGet mid # c2)"
      by (simp add: eq c2)
    moreover have "fetched_ids (GmailMessagesGet mid # c2) = List.map_filter summary_id [msg]"
      using Some by (simp add: c2)
    moreover have "subseq (uploaded_names (GmailMessagesGet mid # c2))
                     (List.map_filter part_filename (parts_of gmail msg))"
      using c2(3) by simp
    ultimately show ?thesis by blast
  qed
qed

lemma process_messages_trace:
  "\<exists>cs. calls (snd (process_messages b64 gmail allowed folder msgs w)) = calls w @ cs \<and>
     prefix (fetched_ids cs) (List.map_filter summary_id msgs) \<and>
     (fst (process_messages b64 gmail allowed folder msgs w) = Inr ()
        \<longrightarrow> fetched_ids cs = List.map_filter summary_id msgs) \<and>
     subseq (uploaded_names cs) (List.map_filter part_filename (scan_order gmail msgs))"
proof (induction msgs arbitrary: w)
  case Nil
  then show ?case by (simp add: scan_order_def)
next
  case (Cons msg rest)
  obtain r w1 where step: "process_message b64 gmail allowed folder msg w = (r, w1)"
    by (cases "process_message b64 gmail allowed folder msg w")
  obtain c1 where c1: "calls w1 = calls w @ c1"
      "fetched_ids c1 = List.map_filter summary_id [msg]"
      "subseq (uploaded_names c1) (List.map_filter part_filename (parts_of gmail msg))"
    using process_message_trace [of b64 gmail allowed folder msg w] step by auto
  have ids: "List.map_filter summary_id (msg # rest)
               = List.map_filter summary_id [msg] @ List.map_filter summary_id rest"
    by (rule map_filter_Cons_append)
  have names: "List.map_filter part_filename (scan_order gmail (msg # rest))
                 = List.map_filter part_filename (parts_of gmail msg)
                   @ List.map_filter part_filename (scan_order gmail rest)"
    by (simp add: scan_order_def List.map_filter_def)
  show ?case
  proof (cases r)
    case (Inl e)
    then have eq: "process_messages b64 gmail allowed folder (msg # rest) w = (Inl e, w1)"
      using step by simp
    have "prefix (fetched_ids c1) (List.map_filter summary_id (msg # rest))"
      unfolding ids c1(2) by simp
    moreover have "subseq (uploaded_names c1)
                     (List.map_filter part_filename (scan_order gmail (msg # rest)))"
      unfolding names using c1(3) by (metis list_emb_append_mono list_emb_Nil append_Nil2)
    ultimately show ?thesis using c1(1) eq by auto
  next
    case (Inr u)
    then have eq: "process_messages b64 gmail allowed folder (msg # rest) w
                 = process_messages b64 gmail allowed folder rest w1"
      using step by simp
    obtain c2 where c2: "calls (snd (process_messages b64 gmail allowed folder rest w1)) = calls w1 @ c2"
        "prefix (fetched_ids c2) (List.map_filter summary_id rest)"
        "fst (process_messages b64 gmail allowed folder rest w1) = Inr ()
           \<longrightarrow> fetched_ids c2 = List.map_filter summary_id rest"
        "subseq (uploaded_names c2) (List.map_filter part_filename (scan_order gmail rest))"
      using Cons.IH [of w1] by auto
    have "calls (snd (process_messages b64 gmail allowed folder (msg # rest) w)) = calls w @ (c1 @ c2)"
      by (simp add: eq c1 c2 del: process_messages.simps)
    moreover have "prefix (fetched_ids (c1 @ c2)) (List.map_filter summary_id (msg # rest))"
      unfolding ids fetched_ids_append c1(2) using c2(2) by simp
    moreover have "fst (process_messages b64 gmail allowed folder (msg # rest) w) = Inr ()
           \<longrightarrow> fetched_ids (c1 @ c2) = List.map_filter summary_id (msg # rest)"
      unfolding ids fetched_ids_append c1(2) eq using c2(3) by simp
    moreover have "subseq (uploaded_names (c1 @ c2))
                     (List.map_filter part_filename (scan_order gmail (msg # rest)))"
      unfolding names uploaded_names_append using c1(3) c2(4) by (rule list_emb_append_mono)
    ultimately show ?thesis by blast
  qed
qed

lemma download_attachments_trace:
  "\<exists>cs. calls (snd (download_attachments b64 gmail query folder w))
           = calls w @ GmailMessagesList query # cs \<and>
     prefix (fetched_ids cs) (List.map_filter summary_id (search_result gmail query)) \<and>
     (fst (download_attachments b64 gmail query folder w) = Inr ()
        \<longrightarrow> fetched_ids cs = List.map_filter summary_id (search_result gmail query)) \<and>
     subseq (uploaded_names cs)
       (List.map_filter part_filename (scan_order gmail (search_result gmail query)))"
proof (cases "search_result gmail query = []")
  case True
  then have "calls (snd (download_attachments b64 gmail query folder w))
               = calls w @ [GmailMessagesList query]"
    by (auto simp: download_attachments_def search_result_def Let_def
        split: sum.splits option.splits)
  then show ?thesis using True by (simp add: scan_order_def)
next
  case False
  let ?w3 = "print (''Found '' @ show_nat (length (search_result gmail query))
                      @ '' messages. Processing...'')
               (issue (GmailMessagesList query)
                  (print (''Searching for messages with query: '' @ query) w))"
  let ?allowed = "allowed_extensions (getenv_default w ''ALLOWED_EXTENSIONS'')"
  from False have eq: "download_attachments b64 gmail query folder w
      = process_messages b64 gmail ?allowed folder (search_result gmail query) ?w3"
    by (auto simp: download_attachments_def search_result_def Let_def
        split: sum.splits option.splits)
  obtain cs where cs: "calls (snd (process_messages b64 gmail ?allowed folder (search_result gmail query) ?w3))
                         = calls ?w3 @ cs"
      "prefix (fetched_ids cs) (List.map_filter summary_id (search_result gmail query))"
      "fst (process_messages b64 gmail ?allowed folder (search_result gmail query) ?w3) = Inr ()
         \<longrightarrow> fetched_ids cs = List.map_filter summary_id (search_result gmail query)"
      "subseq (uploaded_names cs)
         (List.map_filter part_filename (scan_order gmail (search_result gmail query)))"
    using process_messages_trace by blast
  have "calls (snd (download_attachments b64 gmail query folder w))
          = calls w @ GmailMessagesList query # cs"
    unfolding eq cs(1) by simp
  then show ?thesis using cs(2,3,4) unfolding eq by blast
qed

lemma process_part_block:
  "\<exists>cs. calls (snd (process_part b64 gmail allowed mid folder p w)) = calls w @ cs \<and>
        cs \<in> set (part_blocks b64 gmail allowed folder mid p)"
proof -
  have g: "\<And>fn r w1. file_exists_in_drive fn folder w = (r, w1) \<Longrightarrow> w1 = issue (guard_call fn folder) w"
    using file_exists_in_drive_world by (metis snd_conv)
  have u: "\<And>fn d r w2 w3. upload_to_drive fn d folder w2 = (r, w3) \<Longrightarrow>
             calls w3 = calls w2 @ [upload_call fn d folder]"
    using upload_to_drive_calls by (metis snd_conv)
  show ?thesis
    unfolding process_part_def part_blocks_def candidate_of_def decoded_attachment_def
    by (auto simp: Let_def dest!: g u split: option.splits sum.splits prod.splits)
qed

lemma order_marks_append: "order_marks (a @ b) = order_marks a @ order_marks b"
  by (simp add: order_marks_def)

lemma part_block_marks:
  "cs \<in> set (part_blocks b64 gmail allowed folder mid p) \<Longrightarrow> order_marks cs = part_marks allowed folder p"
  by (auto simp: part_blocks_def part_marks_def order_marks_def guard_call_def upload_call_def
      split: option.splits)

lemma process_part_marks:
  "\<exists>cs. calls (snd (process_part b64 gmail allowed mid folder p w)) = calls w @ cs \<and>
        order_marks cs = part_marks allowed folder p"
  using process_part_block part_block_marks by metis

lemma process_parts_single:
  "process_parts b64 gmail allowed mid folder [p] w = process_part b64 gmail allowed mid folder p w"
  by (cases "process_part b64 gmail allowed mid folder p w") (auto split: sum.splits)

lemma process_messages_single:
  "process_messages b64 gmail allowed folder [msg] w = process_message b64 gmail allowed folder msg w"
  by (cases "process_message b64 gmail allowed folder msg w") (auto split: sum.splits)

lemma process_parts_marks:
  "\<exists>cs. calls (snd (process_parts b64 gmail allowed mid folder ps w)) = calls w @ cs \<and>
     prefix (order_marks cs) (concat (map (part_marks allowed folder) ps)) \<and>
     (fst (process_parts b64 gmail allowed mid folder ps w) = Inr ()
        \<longrightarrow> order_marks cs = concat (map (part_marks allowed folder) ps))"
proof (induction ps arbitrary: w)
  case Nil
  then show ?case by (simp add: order_marks_def)
next
  case (Cons p ps)
  obtain r w1 where step: "process_part b64 gmail allowed mid folder p w = (r, w1)"
    by (cases "process_part b64 gmail allowed mid folder p w")
  obtain c1 where c1: "calls w1 = calls w @ c1" "order_marks c1 = part_marks allowed folder p"
    using process_part_marks [of b64 gmail allowed mid folder p w] step by auto
  show ?case
  proof (cases r)
    case (Inl e)
    then have "process_parts b64 gmail allowed mid folder (p # ps) w = (Inl e, w1)"
      using step by simp
    then show ?thesis using c1 by auto
  next
    case (Inr u)
    let ?rest = "process_parts b64 gmail allowed mid folder ps w1"
    have eq: "process_parts b64 gmail allowed mid folder (p # ps) w = ?rest"
      using Inr step by simp
    obtain c2 where c2: "calls (snd ?rest) = calls w1 @ c2"
        "prefix (order_marks c2) (concat (map (part_marks allowed folder) ps))"
        "fst ?rest = Inr () \<longrightarrow> order_marks c2 = concat (map (part_marks allowed folder) ps)"
      using Cons.IH [of w1] by auto
    have "calls (snd ?rest) = calls w @ (c1 @ c2)" using c1(1) c2(1) by simp
    moreover have "prefix (order_marks (c1 @ c2)) (concat (map (part_marks allowed folder) (p # ps)))"
      using c2(2) by (simp add: order_marks_append c1(2))
    moreover have "fst ?rest = Inr ()
        \<longrightarrow> order_marks (c1 @ c2) = concat (map (part_marks allowed folder) (p # ps))"
      using c2(3) by (simp add: order_marks_append c1(2))
    ultimately show ?thesis unfolding eq by (intro exI [of _ "c1 @ c2"] conjI)
  qed
qed

lemma process_message_marks:
  "\<exists>cs. calls (snd (process_message b64 gmail allowed folder msg w)) = calls w @ cs \<and>
     prefix (order_marks cs) (message_marks gmail allowed folder msg) \<and>
     (fst (process_message b64 gmail allowed folder msg w) = Inr ()
        \<longrightarrow> order_marks cs = message_marks gmail allowed folder msg)"
proof (cases "summary_id msg")
  case None
  then show ?thesis by (simp add: process_message_def message_marks_def order_marks_def)
next
  case (Some mid)
  let ?w1 = "issue (GmailMessagesGet mid) w"
  show ?thesis
  proof (cases "parts_of gmail msg = []")
    case True
    then have "calls (snd (process_message b64 gmail allowed folder msg w)) = calls w @ [GmailMessagesGet mid]"
      using Some
      by (auto simp: process_message_def parts_of_def Let_def split: sum.splits option.splits)
    moreover have "order_marks [GmailMessagesGet mid] = message_marks gmail allowed folder msg"
      using Some True by (simp add: order_marks_def message_marks_def)
    ultimately show ?thesis by (intro exI [of _ "[GmailMessagesGet mid]"]) simp
  next
    case False
    let ?run = "process_parts b64 gmail allowed mid folder (parts_of gmail msg) ?w1"
    have eq: "process_message b64 gmail allowed folder msg w = ?run"
      using Some False by (rule process_message_parts)
    obtain c2 where c2: "calls (snd ?run) = calls ?w1 @ c2"
        "prefix (order_marks c2) (concat (map (part_marks allowed folder) (parts_of gmail msg)))"
        "fst ?run = Inr ()
           \<longrightarrow> order_marks c2 = concat (map (part_marks allowed folder) (parts_of gmail msg))"
      using process_parts_marks [of b64 gmail allowed mid folder "parts_of gmail msg" ?w1] by auto
    have m: "order_marks (GmailMessagesGet mid # c2) = GmailMessagesGet mid # order_marks c2"
      by (simp add: order_marks_def)
    have "calls (snd ?run) = calls w @ (GmailMessagesGet mid # c2)" using c2(1) by simp
    moreover have "prefix (order_marks (GmailMessagesGet mid # c2)) (message_marks gmail allowed folder msg)"
      unfolding m using c2(2) Some by (simp add: message_marks_def)
    moreover have "fst ?run = Inr ()
        \<longrightarrow> order_marks (GmailMessagesGet mid # c2) = message_marks gmail allowed folder msg"
      unfolding m using c2(3) Some by (simp add: message_marks_def)
    ultimately show ?thesis unfolding eq by (intro exI [of _ "GmailMessagesGet mid # c2"] conjI)
  qed
qed

lemma process_messages_marks:
  "\<exists>cs. calls (snd (process_messages b64 gmail allowed folder msgs w)) = calls w @ cs \<and>
     prefix (order_marks cs) (expected_marks gmail allowed folder msgs) \<and>
     (fst (process_messages b64 gmail allowed folder msgs w) = Inr ()
        \<longrightarrow> order_marks cs = expected_marks gmail allowed folder msgs)"
proof (induction msgs arbitrary: w)
  case Nil
  then show ?case by (simp add: order_marks_def expected_marks_def)
next
  case (Cons msg rest)
  obtain r w1 where step: "process_message b64 gmail allowed folder msg w = (r, w1)"
    by (cases "process_message b64 gmail allowed folder msg w")
  obtain c1 where c1: "calls w1 = calls w @ c1"
      "prefix (order_marks c1) (message_marks gmail allowed folder msg)"
      "r = Inr () \<longrightarrow> order_marks c1 = message_marks gmail allowed folder msg"
    using process_message_marks [of b64 gmail allowed folder msg w] step by auto
  have ex: "expected_marks gmail allowed folder (msg # rest)
              = message_marks gmail allowed folder msg @ expected_marks gmail allowed folder rest"
    by (simp add: expected_marks_def)
  show ?case
  proof (cases r)
    case (Inl e)
    then have eq: "process_messages b64 gmail allowed folder (msg # rest) w = (Inl e, w1)"
      using step by simp
    have "prefix (order_marks c1) (expected_marks gmail allowed folder (msg # rest))"
      unfolding ex using c1(2) by (rule prefix_prefix)
    then show ?thesis unfolding eq using c1(1) by auto
  next
    case (Inr u)
    let ?rest = "process_messages b64 gmail allowed folder rest w1"
    have eq: "process_messages b64 gmail allowed folder (msg # rest) w = ?rest"
      using Inr step by simp
    have m1: "order_marks c1 = message_marks gmail allowed folder msg" using c1(3) Inr by simp
    obtain c2 where c2: "calls (snd ?rest) = calls w1 @ c2"
        "prefix (order_marks c2) (expected_marks gmail allowed folder rest)"
        "fst ?rest = Inr () \<longrightarrow> order_marks c2 = expected_marks gmail allowed folder rest"
      using Cons.IH [of w1] by auto
    have "calls (snd ?rest) = calls w @ (c1 @ c2)" using c1(1) c2(1) by simp
    moreover have "prefix (order_marks (c1 @ c2)) (expected_marks gmail allowed folder (msg # rest))"
      unfolding ex order_marks_append m1 using c2(2) by simp
    moreover have "fst ?rest = Inr ()
        \<longrightarrow> order_marks (c1 @ c2) = expected_marks gmail allowed folder (msg # rest)"
      unfolding ex order_marks_append m1 using c2(3) by simp
    ultimately show ?thesis unfolding eq by (intro exI [of _ "c1 @ c2"] conjI)
  qed
qed

lemma download_attachments_marks:
  "prefix (order_marks (new_calls w (snd (download_attachments b64 gmail query folder w))))
     (expected_marks gmail (allowed_extensions (getenv_default w ''ALLOWED_EXTENSIONS'')) folder
        (search_result gmail query)) \<and>
   (fst (download_attachments b64 gmail query folder w) = Inr ()
      \<longrightarrow> order_marks (new_calls w (snd (download_attachments b64 gmail query folder w)))
          = expected_marks gmail (allowed_extensions (getenv_default w ''ALLOWED_EXTENSIONS'')) folder
              (search_result gmail query))"
proof (cases "search_result gmail query = []")
  case True
  then have "calls (snd (download_attachments b64 gmail query folder w))
               = calls w @ [GmailMessagesList query]"
    by (auto simp: download_attachments_def search_result_def Let_def
        split: sum.splits option.splits)
  then have "new_calls w (snd (download_attachments b64 gmail query folder w)) = [GmailMessagesList query]"
    by (rule new_calls_append)
  then show ?thesis using True by (simp add: order_marks_def expected_marks_def)
next
  case False
  define w3 where "w3 = print (''Found '' @ show_nat (length (search_result gmail query))
                      @ '' messages. Processing...'')
               (issue (GmailMessagesList query)
                  (print (''Searching for messages with query: '' @ query) w))"
  let ?allowed = "allowed_extensions (getenv_default w ''ALLOWED_EXTENSIONS'')"
  let ?run = "process_messages b64 gmail ?allowed folder (search_result gmail query) w3"
  have eq: "download_attachments b64 gmail query folder w = ?run"
    unfolding w3_def by (rule download_attachments_messages [OF False])
  have c3: "calls w3 = calls w @ [GmailMessagesList query]" by (simp add: w3_def)
  obtain cs where cs: "calls (snd ?run) = calls w3 @ cs"
      "prefix (order_marks cs) (expected_marks gmail ?allowed folder (search_result gmail query))"
      "fst ?run = Inr ()
         \<longrightarrow> order_marks cs = expected_marks gmail ?allowed folder (search_result gmail query)"
    using process_messages_marks [of b64 gmail ?allowed folder "search_result gmail query" w3]
    by auto
  have "calls (snd ?run) = calls w @ (GmailMessagesList query # cs)"
    using cs(1) c3 by simp
  then have n: "new_calls w (snd ?run) = GmailMessagesList query # cs"
    by (rule new_calls_append)
  have m: "order_marks (GmailMessagesList query # cs) = order_marks cs"
    by (simp add: order_marks_def)
  show ?thesis unfolding eq n m using cs(2,3) by simp
qed

text \<open>
  C8. The sync driver processes the messages in the order of the search result and,
  within a message, the parts in the order the mail service returns them. Each loop is
  the one-after-the-other run of its steps, ended by the first exception. The processing
  of a part issues its calls as one block: the search of the guard, then the fetch, then
  the upload. In a run the fetches of messages and the searches of the guard appear in
  exactly the order of the messages and of their candidates (all of them when the run
  ends without an exception, a first stretch of them otherwise), so the uploads follow
  that order too.
\<close>

theorem processing_order:
  "(let run = download_attachments b64 gmail query folder w;
        cs = new_calls w (snd run);
        msgs = search_result gmail query;
        configured = allowed_extensions (getenv_default w ''ALLOWED_EXTENSIONS'')
    in prefix (fetched_ids cs) (List.map_filter summary_id msgs) \<and>
       (fst run = Inr () \<longrightarrow> fetched_ids cs = List.map_filter summary_id msgs) \<and>
       subseq (uploaded_names cs) (List.map_filter part_filename (scan_order gmail msgs)) \<and>
       prefix (order_marks cs) (expected_marks gmail configured folder msgs) \<and>
       (fst run = Inr () \<longrightarrow> order_marks cs = expected_marks gmail configured folder msgs)) \<and>
   new_calls w (snd (process_part b64 gmail allowed mid folder p w))
     \<in> set (part_blocks b64 gmail allowed folder mid p) \<and>
   process_parts b64 gmail allowed mid folder [] w = (Inr (), w) \<and>
   process_parts b64 gmail allowed mid folder [p] w = process_part b64 gmail allowed mid folder p w \<and>
   process_parts b64 gmail allowed mid folder (ps @ qs) w =
     (case process_parts b64 gmail allowed mid folder ps w of
        (Inl e, w1) \<Rightarrow> (Inl e, w1)
      | (Inr u, w1) \<Rightarrow> process_parts b64 gmail allowed mid folder qs w1) \<and>
   process_messages b64 gmail allowed folder [] w = (Inr (), w) \<and>
   process_messages b64 gmail allowed folder [msg] w = process_message b64 gmail allowed folder msg w \<and>
   process_messages b64 gmail allowed folder (ms @ ns) w =
     (case process_messages b64 gmail allowed folder ms w of
        (Inl e, w1) \<Rightarrow> (Inl e, w1)
      | (Inr u, w1) \<Rightarrow> process_messages b64 gmail allowed folder ns w1)"
proof -
  obtain cs where cs: "calls (snd (download_attachments b64 gmail query folder w))
           = calls w @ GmailMessagesList query # cs"
     "prefix (fetched_ids cs) (List.map_filter summary_id (search_result gmail query))"
     "fst (download_attachments b64 gmail query folder w) = Inr ()
        \<longrightarrow> fetched_ids cs = List.map_filter summary_id (search_result gmail query)"
     "subseq (uploaded_names cs)
       (List.map_filter part_filename (scan_order gmail (search_result gmail query)))"
    using download_attachments_trace by blast
  have n: "new_calls w (snd (download_attachments b64 gmail query folder w)) = GmailMessagesList query # cs"
    using cs(1) by (rule new_calls_append)
  have run: "(let run = download_attachments b64 gmail query folder w;
        cs = new_calls w (snd run);
        msgs = search_result gmail query;
        configured = allowed_extensions (getenv_default w ''ALLOWED_EXTENSIONS'')
    in prefix (fetched_ids cs) (List.map_filter summary_id msgs) \<and>
       (fst run = Inr () \<longrightarrow> fetched_ids cs = List.map_filter summary_id msgs) \<and>
       subseq (uploaded_names cs) (List.map_filter part_filename (scan_order gmail msgs)) \<and>
       prefix (order_marks cs) (expected_marks gmail configured folder msgs) \<and>
       (fst run = Inr () \<longrightarrow> order_marks cs = expected_marks gmail configured folder msgs))"
    using cs(2,3,4) download_attachments_marks [of w b64 gmail query folder]
    unfolding Let_def n by simp
  obtain c1 where c1: "calls (snd (process_part b64 gmail allowed mid folder p w)) = calls w @ c1"
      "c1 \<in> set (part_blocks b64 gmail allowed folder mid p)"
    using process_part_block by blast
  have block: "new_calls w (snd (process_part b64 gmail allowed mid folder p w))
     \<in> set (part_blocks b64 gmail allowed folder mid p)"
    unfolding new_calls_append [OF c1(1)] by (rule c1(2))
  show ?thesis
    using run block process_parts_single [of b64 gmail allowed mid folder p w]
      process_parts_append [of b64 gmail allowed mid folder ps qs w]
      process_messages_single [of b64 gmail allowed folder msg w]
      process_messages_append [of b64 gmail allowed folder ms ns w]
    by (intro conjI) simp_all
qed

theorem processing_order_witness:
  "fst (download_attachments demo_b64 demo_gmail ''label:two'' ''id0'' (demo_world demo_vars)) = Inr () \<and>
   search_result demo_gmail ''label:two'' = [\<lparr>summary_id = Some ''m6''\<rparr>] \<and>
   parts_of demo_gmail \<lparr>summary_id = Some ''m6''\<rparr>
     = [demo_part ''b.pdf'' ''a6'', demo_part ''a.pdf'' ''a7''] \<and>
   fetched_ids (new_calls (demo_world demo_vars)
      (snd (download_attachments demo_b64 demo_gmail ''label:two'' ''id0'' (demo_world demo_vars))))
     = [''m6''] \<and>
   order_marks (new_calls (demo_world demo_vars)
      (snd (download_attachments demo_b64 demo_gmail ''label:two'' ''id0'' (demo_world demo_vars))))
     = [GmailMessagesGet ''m6'', guard_call ''b.pdf'' ''id0'', guard_call ''a.pdf'' ''id0''] \<and>
   new_calls (demo_world demo_vars)
      (snd (download_attachments demo_b64 demo_gmail ''label:two'' ''id0'' (demo_world demo_vars)))
     = [GmailMessagesList ''label:two'', GmailMessagesGet ''m6'',
        guard_call ''b.pdf'' ''id0'', GmailAttachmentsGet ''m6'' ''a6'', upload_call ''b.pdf'' ''hi'' ''id0'',
        guard_call ''a.pdf'' ''id0'', GmailAttachmentsGet ''m6'' ''a7'', upload_call ''a.pdf'' ''yo'' ''id0''] \<and>
   fst (download_attachments demo_b64 demo_gmail ''has:attachment'' ''id0'' (demo_world demo_vars)) = Inr () \<and>
   fetched_ids (new_calls (demo_world demo_vars)
      (snd (download_attachments demo_b64 demo_gmail ''has:attachment'' ''id0'' (demo_world demo_vars))))
     = [''m1'', ''m2'', ''m3'']"
proof -
  have ok: "fst (download_attachments demo_b64 demo_gmail ''label:two'' ''id0'' (demo_world demo_vars)) = Inr ()"
    by code_simp
  have found: "search_result demo_gmail ''label:two'' = [\<lparr>summary_id = Some ''m6''\<rparr>]"
    by (simp add: search_result_def demo_gmail_def)
  have parts: "parts_of demo_gmail \<lparr>summary_id = Some ''m6''\<rparr>
     = [demo_part ''b.pdf'' ''a6'', demo_part ''a.pdf'' ''a7'']"
    by (simp add: parts_of_def demo_gmail_def demo_message_def)
  have ids: "List.map_filter summary_id (search_result demo_gmail ''label:two'') = [''m6'']"
    unfolding found by (simp add: List.map_filter_simps)
  have marks: "expected_marks demo_gmail
       (allowed_extensions (getenv_default (demo_world demo_vars) ''ALLOWED_EXTENSIONS'')) ''id0''
       (search_result demo_gmail ''label:two'')
     = [GmailMessagesGet ''m6'', guard_call ''b.pdf'' ''id0'', guard_call ''a.pdf'' ''id0'']"
    by code_simp
  have trace: "new_calls (demo_world demo_vars)
      (snd (download_attachments demo_b64 demo_gmail ''label:two'' ''id0'' (demo_world demo_vars)))
     = [GmailMessagesList ''label:two'', GmailMessagesGet ''m6'',
        guard_call ''b.pdf'' ''id0'', GmailAttachmentsGet ''m6'' ''a6'', upload_call ''b.pdf'' ''hi'' ''id0'',
        guard_call ''a.pdf'' ''id0'', GmailAttachmentsGet ''m6'' ''a7'', upload_call ''a.pdf'' ''yo'' ''id0'']"
    by code_simp
  have ok2: "fst (download_attachments demo_b64 demo_gmail ''has:attachment'' ''id0'' (demo_world demo_vars)) = Inr ()"
    by code_simp
  have ids2: "List.map_filter summary_id (search_result demo_gmail ''has:attachment'') = [''m1'', ''m2'', ''m3'']"
    by code_simp
  note two = processing_order [where w = "demo_world demo_vars" and ?b64.0 = demo_b64
        and gmail = demo_gmail and query = "''label:two''" and folder = "''id0''", THEN conjunct1]
  note three = processing_order [where w = "demo_world demo_vars" and ?b64.0 = demo_b64
        and gmail = demo_gmail and query = "''has:attachment''" and folder = "''id0''", THEN conjunct1]
  have f6: "fetched_ids (new_calls (demo_world demo_vars)
      (snd (download_attachments demo_b64 demo_gmail ''label:two'' ''id0'' (demo_world demo_vars))))
     = [''m6'']"
    using two ok unfolding Let_def ids by blast
  have m6: "order_marks (new_calls (demo_world demo_vars)
      (snd (download_attachments demo_b64 demo_gmail ''label:two'' ''id0'' (demo_world demo_vars))))
     = [GmailMessagesGet ''m6'', guard_call ''b.pdf'' ''id0'', guard_call ''a.pdf'' ''id0'']"
    using two ok unfolding Let_def marks by blast
  have f3: "fetched_ids (new_calls (demo_world demo_vars)
      (snd (download_attachments demo_b64 demo_gmail ''has:attachment'' ''id0'' (demo_world demo_vars))))
     = [''m1'', ''m2'', ''m3'']"
    using three ok2 unfolding Let_def ids2 by blast
  show ?thesis
    by (intro conjI) (fact ok found parts f6 m6 trace ok2 f3)+
qed

subsection \<open>A part without a body (C9)\<close>

text \<open>
  C9. When the driver comes to a part that has a non-empty file name and no
  \<^verbatim>\<open>body\<close> key, the lookup \<^verbatim>\<open>part['body']\<close> raises a \<^verbatim>\<open>KeyError\<close>. The driver does not
  catch it: the later parts of the message and the later messages of the search result
  are not processed, whatever they are. A part without a file name, with an empty one, or
  whose body has no attachment id is passed over without an effect.
\<close>

theorem part_without_body_aborts_sync:
  assumes "part_filename p = Some fn" and "fn \<noteq> []" and "part_body p = None"
    and "process_messages b64 gmail allowed folder earlier w0 = (Inr (), w)"
    and "summary_id msg = Some mid" and "messages_get gmail mid = Inr m"
    and "message_payload m = Some pl" and "payload_parts pl = Some (before @ p # later)"
    and "process_parts b64 gmail allowed mid folder before (issue (GmailMessagesGet mid) w) = (Inr (), w1)"
  shows "process_part b64 gmail allowed mid folder p w1 = (Inl (KeyError ''body''), w1) \<and>
         process_parts b64 gmail allowed mid folder (before @ p # later) (issue (GmailMessagesGet mid) w)
           = (Inl (KeyError ''body''), w1) \<and>
         process_messages b64 gmail allowed folder (earlier @ msg # rest) w0
           = (Inl (KeyError ''body''), w1) \<and>
         (search_result gmail query = earlier @ msg # rest \<and>
          allowed = allowed_extensions (getenv_default start ''ALLOWED_EXTENSIONS'') \<and>
          w0 = print (''Found '' @ show_nat (length (search_result gmail query))
                        @ '' messages. Processing...'')
                 (issue (GmailMessagesList query)
                    (print (''Searching for messages with query: '' @ query) start))
            \<longrightarrow> download_attachments b64 gmail query folder start = (Inl (KeyError ''body''), w1)) \<and>
         (\<forall>q. part_filename q = None \<or> part_filename q = Some [] \<or>
               (\<exists>b. part_body q = Some b \<and> body_attachmentId b = None)
               \<longrightarrow> process_part b64 gmail allowed mid folder q w1 = (Inr (), w1))"
proof -
  have part: "process_part b64 gmail allowed mid folder p w1 = (Inl (KeyError ''body''), w1)"
    using assms(1-3) by (simp add: process_part_def)
  have parts: "process_parts b64 gmail allowed mid folder (before @ p # later) (issue (GmailMessagesGet mid) w)
           = (Inl (KeyError ''body''), w1)"
    using assms(9) part by (simp add: process_parts_append)
  have message: "process_message b64 gmail allowed folder msg w = (Inl (KeyError ''body''), w1)"
    using assms(5-8) parts by (simp add: process_message_def Let_def)
  have messages: "process_messages b64 gmail allowed folder (earlier @ msg # rest) w0
           = (Inl (KeyError ''body''), w1)"
    using assms(4) message by (simp add: process_messages_append)
  have skip: "process_part b64 gmail allowed mid folder q w1 = (Inr (), w1)"
    if "part_filename q = None \<or> part_filename q = Some [] \<or>
        (\<exists>b. part_body q = Some b \<and> body_attachmentId b = None)" for q
    using that by (auto simp: process_part_def split: option.splits)
  have driver: "download_attachments b64 gmail query folder start = (Inl (KeyError ''body''), w1)"
    if "search_result gmail query = earlier @ msg # rest \<and>
        allowed = allowed_extensions (getenv_default start ''ALLOWED_EXTENSIONS'') \<and>
        w0 = print (''Found '' @ show_nat (length (search_result gmail query))
                      @ '' messages. Processing...'')
               (issue (GmailMessagesList query)
                  (print (''Searching for messages with query: '' @ query) start))"
  proof -
    have ne: "search_result gmail query \<noteq> []" using that by simp
    show ?thesis
      unfolding download_attachments_messages [OF ne] using that messages by simp
  qed
  show ?thesis using part parts messages driver skip by blast
qed

theorem part_without_body_aborts_sync_witness:
  "part_filename \<lparr>part_filename = Some ''scan.pdf'', part_body = None\<rparr> = Some ''scan.pdf'' \<and>
   messages_get demo_gmail ''m4''
     = Inr (demo_message [\<lparr>part_filename = Some ''scan.pdf'', part_body = None\<rparr>,
                          demo_part ''later.pdf'' ''a4'']) \<and>
   process_messages demo_b64 demo_gmail [''.pdf''] ''id0''
       [\<lparr>summary_id = Some ''m4''\<rparr>, \<lparr>summary_id = Some ''m1''\<rparr>] (demo_world demo_vars)
     = (Inl (KeyError ''body''), issue (GmailMessagesGet ''m4'') (demo_world demo_vars))"
proof -
  have g: "messages_get demo_gmail ''m4''
     = Inr (demo_message [\<lparr>part_filename = Some ''scan.pdf'', part_body = None\<rparr>,
                          demo_part ''later.pdf'' ''a4''])"
    by (simp add: demo_gmail_def)
  show ?thesis
    using part_without_body_aborts_sync
      [where p = "\<lparr>part_filename = Some ''scan.pdf'', part_body = None\<rparr>" and fn = "''scan.pdf''"
         and ?b64.0 = demo_b64 and gmail = demo_gmail and allowed = "[''.pdf'']" and folder = "''id0''"
         and earlier = "[]" and ?w0.0 = "demo_world demo_vars" and w = "demo_world demo_vars"
         and msg = "\<lparr>summary_id = Some ''m4''\<rparr>" and mid = "''m4''"
         and m = "demo_message [\<lparr>part_filename = Some ''scan.pdf'', part_body = None\<rparr>,
                                demo_part ''later.pdf'' ''a4'']"
         and pl = "\<lparr>payload_parts = Some [\<lparr>part_filename = Some ''scan.pdf'', part_body = None\<rparr>,
                                             demo_part ''later.pdf'' ''a4'']\<rparr>"
         and before = "[]" and later = "[demo_part ''later.pdf'' ''a4'']"
         and ?w1.0 = "issue (GmailMessagesGet ''m4'') (demo_world demo_vars)"
         and rest = "[\<lparr>summary_id = Some ''m1''\<rparr>]"] g
    by (simp add: demo_message_def)
qed

subsection \<open>The allowed extensions of the configuration (C10)\<close>

lemma process_part_none_allowed: "snd (process_part b64 gmail [] mid folder p w) = w"
  by (simp add: process_part_def extension_allowed_def split: option.splits)

lemma process_parts_none_allowed: "snd (process_parts b64 gmail [] mid folder ps w) = w"
proof (induction ps)
  case Nil
  then show ?case by simp
next
  case (Cons p ps)
  obtain r where "process_part b64 gmail [] mid folder p w = (r, w)"
    using process_part_none_allowed [of b64 gmail mid folder p w]
    by (cases "process_part b64 gmail [] mid folder p w") auto
  then show ?case using Cons.IH by (cases r) auto
qed

lemma process_message_none_allowed:
  "drive_files (snd (process_message b64 gmail [] folder msg w)) = drive_files w \<and>
   (\<exists>cs. calls (snd (process_message b64 gmail [] folder msg w)) = calls w @ cs \<and>
         list_all is_gmail_call cs)"
  by (auto simp: process_message_def Let_def process_parts_none_allowed
      split: option.splits sum.splits)

lemma process_messages_none_allowed:
  "drive_files (snd (process_messages b64 gmail [] folder msgs w)) = drive_files w \<and>
   (\<exists>cs. calls (snd (process_messages b64 gmail [] folder msgs w)) = calls w @ cs \<and>
         list_all is_gmail_call cs)"
proof (induction msgs arbitrary: w)
  case Nil
  then show ?case by simp
next
  case (Cons msg rest)
  obtain r w1 where step: "process_message b64 gmail [] folder msg w = (r, w1)"
    by (cases "process_message b64 gmail [] folder msg w")
  obtain c1 where c1: "drive_files w1 = drive_files w" "calls w1 = calls w @ c1"
      "list_all is_gmail_call c1"
    using process_message_none_allowed [of b64 gmail folder msg w] step by auto
  show ?case
  proof (cases r)
    case (Inl e)
    then show ?thesis using step c1 by auto
  next
    case (Inr u)
    obtain c2 where c2: "drive_files (snd (process_messages b64 gmail [] folder rest w1)) = drive_files w1"
        "calls (snd (process_messages b64 gmail [] folder rest w1)) = calls w1 @ c2"
        "list_all is_gmail_call c2"
      using Cons.IH [of w1] by auto
    have "calls (snd (process_messages b64 gmail [] folder (msg # rest) w)) = calls w @ (c1 @ c2)"
      using Inr step c1 c2 by simp
    moreover have "list_all is_gmail_call (c1 @ c2)" using c1 c2 by simp
    moreover have "drive_files (snd (process_messages b64 gmail [] folder (msg # rest) w)) = drive_files w"
      using Inr step c1 c2 by simp
    ultimately show ?thesis by blast
  qed
qed

lemma download_attachments_none_allowed:
  assumes "allowed_extensions (getenv_default w ''ALLOWED_EXTENSIONS'') = []"
  shows "drive_files (snd (download_attachments b64 gmail query folder w)) = drive_files w \<and>
     filter is_upload (new_calls w (snd (download_attachments b64 gmail query folder w))) = []"
proof -
  let ?w2 = "issue (GmailMessagesList query)
                  (print (''Searching for messages with query: '' @ query) w)"
  have "drive_files (snd (download_attachments b64 gmail query folder w)) = drive_files w \<and>
     (\<exists>cs. calls (snd (download_attachments b64 gmail query folder w)) = calls w @ cs \<and>
         list_all is_gmail_call cs)"
  proof (cases "search_result gmail query = []")
    case True
    then have "snd (download_attachments b64 gmail query folder w) = ?w2
        \<or> snd (download_attachments b64 gmail query folder w) = print ''No messages found.'' ?w2"
      by (auto simp: download_attachments_def search_result_def Let_def
          split: sum.splits option.splits)
    then show ?thesis by auto
  next
    case False
    let ?w3 = "print (''Found '' @ show_nat (length (search_result gmail query))
                      @ '' messages. Processing...'') ?w2"
    from False have eq: "download_attachments b64 gmail query folder w
        = process_messages b64 gmail [] folder (search_result gmail query) ?w3"
      using assms
      by (auto simp: download_attachments_def search_result_def Let_def
          split: sum.splits option.splits)
    obtain cs where cs: "drive_files (snd (process_messages b64 gmail [] folder (search_result gmail query) ?w3)) = drive_files ?w3"
        "calls (snd (process_messages b64 gmail [] folder (search_result gmail query) ?w3)) = calls ?w3 @ cs"
        "list_all is_gmail_call cs"
      using process_messages_none_allowed by blast
    have "calls (snd (download_attachments b64 gmail query folder w)) = calls w @ (GmailMessagesList query # cs)"
      unfolding eq cs(2) by simp
    moreover have "list_all is_gmail_call (GmailMessagesList query # cs)" using cs(3) by simp
    moreover have "drive_files (snd (download_attachments b64 gmail query folder w)) = drive_files w"
      unfolding eq cs(1) by simp
    ultimately show ?thesis by blast
  qed
  then obtain cs where "drive_files (snd (download_attachments b64 gmail query folder w)) = drive_files w"
    "calls (snd (download_attachments b64 gmail query folder w)) = calls w @ cs"
    "list_all is_gmail_call cs" by blast
  then show ?thesis
    by (simp add: new_calls_append upload_is_no_gmail_call)
qed

lemma join_comma_Cons_Cons: "join_comma ((c # x) # xs) = c # join_comma (x # xs)"
  by (cases xs) simp_all

lemma join_split_comma: "join_comma (split_comma s) = s"
proof (induction s)
  case Nil
  then show ?case by simp
next
  case (Cons c cs)
  obtain x xs where r: "split_comma cs = x # xs"
    using split_comma_not_Nil by (cases "split_comma cs") auto
  show ?case
    using Cons.IH unfolding r by (simp add: r join_comma_Cons_Cons)
qed

lemma split_comma_comma_free: "list_all comma_free (split_comma s)"
proof (induction s)
  case Nil
  then show ?case by (simp add: comma_free_def)
next
  case (Cons c cs)
  obtain x xs where r: "split_comma cs = x # xs"
    using split_comma_not_Nil by (cases "split_comma cs") auto
  show ?case
    using Cons.IH unfolding r by (auto simp: r comma_free_def)
qed

lemma split_comma_plain: "comma_free p \<Longrightarrow> split_comma p = [p]"
  by (induction p) (auto simp: comma_free_def)

lemma split_comma_append_comma:
  "comma_free p \<Longrightarrow> split_comma (p @ CHR '','' # rest) = p # split_comma rest"
  by (induction p) (auto simp: comma_free_def)

lemma split_join_comma:
  "ps \<noteq> [] \<Longrightarrow> list_all comma_free ps \<Longrightarrow> split_comma (join_comma ps) = ps"
  by (induction ps rule: join_comma.induct)
     (simp_all add: split_comma_plain split_comma_append_comma)

lemma strip_of_padding:
  assumes "blank l" and "blank r" and "trimmed core"
  shows "strip (l @ core @ r) = core"
proof (cases "core = []")
  case True
  then have "list_all isspace (l @ core @ r)" using assms by (simp add: blank_def)
  then have "strip (l @ core @ r) = []" by (rule strip_blank)
  then show ?thesis using True by simp
next
  case False
  then have ends: "\<not> isspace (hd core)" "\<not> isspace (last core)"
    using assms(3) by (auto simp: trimmed_def)
  have l: "\<forall>x\<in>set l. isspace x" and r: "\<forall>x\<in>set (rev r). isspace x"
    using assms(1,2) by (auto simp: blank_def list_all_iff)
  have "dropWhile isspace (l @ (core @ r)) = dropWhile isspace (core @ r)"
    by (rule dropWhile_append2) (use l in blast)
  also have "\<dots> = core @ r"
    using False ends(1) by (cases core) auto
  finally have d1: "dropWhile isspace (l @ core @ r) = core @ r" .
  have "dropWhile isspace (rev r @ rev core) = dropWhile isspace (rev core)"
    by (rule dropWhile_append2) (use r in blast)
  then have "dropWhile isspace (rev (core @ r)) = dropWhile isspace (rev core)"
    by (simp only: rev_append)
  also have "\<dots> = rev core"
    using False ends(2) by (cases core rule: rev_cases) auto
  finally have d2: "dropWhile isspace (rev (core @ r)) = rev core" .
  show ?thesis unfolding strip_def d1 d2 by simp
qed

lemma strip_is_trimmed_core:
  "\<exists>l r. s = l @ strip s @ r \<and> blank l \<and> blank r \<and> trimmed (strip s)"
proof -
  define l where "l = takeWhile isspace s"
  define d where "d = dropWhile isspace s"
  define r where "r = rev (takeWhile isspace (rev d))"
  have s: "s = l @ d" by (simp add: l_def d_def)
  have core: "strip s = rev (dropWhile isspace (rev d))" by (simp add: strip_def d_def)
  have "d = rev (takeWhile isspace (rev d) @ dropWhile isspace (rev d))"
    by (simp only: takeWhile_dropWhile_id rev_rev_ident)
  also have "\<dots> = rev (dropWhile isspace (rev d)) @ rev (takeWhile isspace (rev d))"
    by (rule rev_append)
  finally have d: "d = strip s @ r" unfolding core r_def .
  have bl: "blank l" by (simp add: blank_def l_def list_all_iff) (meson set_takeWhileD)
  have br: "blank r" by (simp add: blank_def r_def list_all_iff) (meson set_takeWhileD)
  have t: "trimmed (strip s)"
  proof (cases "strip s = []")
    case True
    then show ?thesis by (simp add: trimmed_def)
  next
    case False
    then have ne: "dropWhile isspace (rev d) \<noteq> []" unfolding core by simp
    have "last (strip s) = hd (dropWhile isspace (rev d))"
      unfolding core using ne by (simp add: last_rev)
    then have a: "\<not> isspace (last (strip s))" using ne by (simp add: hd_dropWhile)
    have "d \<noteq> []" using False d by auto
    then have "\<not> isspace (hd d)" unfolding d_def by (rule hd_dropWhile)
    moreover have "hd d = hd (strip s)" using False d by (metis hd_append2)
    ultimately show ?thesis using a by (simp add: trimmed_def)
  qed
  show ?thesis using s d bl br t by auto
qed

lemma allowed_extensions_member:
  "ext \<in> set (allowed_extensions s) \<longleftrightarrow>
     (\<exists>ps l core r. ps \<noteq> [] \<and> list_all comma_free ps \<and> join_comma ps = s \<and>
        l @ core @ r \<in> set ps \<and> blank l \<and> blank r \<and> trimmed core \<and> core \<noteq> [] \<and>
        ext = lower core)"
proof
  assume "ext \<in> set (allowed_extensions s)"
  then obtain piece where piece: "piece \<in> set (split_comma s)" "strip piece \<noteq> []"
      "ext = lower (strip piece)"
    by (auto simp: allowed_extensions_def)
  obtain l r where lr: "piece = l @ strip piece @ r" "blank l" "blank r" "trimmed (strip piece)"
    using strip_is_trimmed_core by blast
  have "l @ strip piece @ r \<in> set (split_comma s)" using piece(1) lr(1) by simp
  then show "\<exists>ps l core r. ps \<noteq> [] \<and> list_all comma_free ps \<and> join_comma ps = s \<and>
        l @ core @ r \<in> set ps \<and> blank l \<and> blank r \<and> trimmed core \<and> core \<noteq> [] \<and>
        ext = lower core"
    using split_comma_not_Nil split_comma_comma_free join_split_comma piece(2,3) lr(2-4)
    by blast
next
  assume "\<exists>ps l core r. ps \<noteq> [] \<and> list_all comma_free ps \<and> join_comma ps = s \<and>
        l @ core @ r \<in> set ps \<and> blank l \<and> blank r \<and> trimmed core \<and> core \<noteq> [] \<and>
        ext = lower core"
  then obtain ps l core r where h: "ps \<noteq> []" "list_all comma_free ps" "join_comma ps = s"
      "l @ core @ r \<in> set ps" "blank l" "blank r" "trimmed core" "core \<noteq> []" "ext = lower core"
    by blast
  have "split_comma s = ps" using split_join_comma [OF h(1,2)] h(3) by simp
  moreover have "strip (l @ core @ r) = core" using h(5-7) by (rule strip_of_padding)
  ultimately show "ext \<in> set (allowed_extensions s)"
    using h(4,8,9) by (force simp: allowed_extensions_def)
qed

text \<open>
  C10. The allowed-extension set is what the specification says: the comma-separated
  entries, trimmed, in lower case, without the empty ones. Here the entries of a value
  are the comma-free pieces that join to it with commas, and the trimmed entry is what is
  left of a piece between its leading and its trailing white space; so a suffix is
  allowed exactly when it is the lower-case form of the non-empty trimmed part of an
  entry. When the variable is unset it counts as empty; when its value holds only commas
  and white space the set is empty, and then a run uploads nothing and leaves the files
  of the storage service as they were.
\<close>

theorem allowed_extensions_from_configuration:
  "allowed_extensions s = spec_allowed_extensions s \<and>
   join_comma (split_comma s) = s \<and> list_all comma_free (split_comma s) \<and>
   (ps \<noteq> [] \<and> list_all comma_free ps \<longrightarrow> split_comma (join_comma ps) = ps) \<and>
   (\<exists>l r. s = l @ strip s @ r \<and> blank l \<and> blank r \<and> trimmed (strip s)) \<and>
   (blank pre \<and> blank post \<and> trimmed mid \<longrightarrow> strip (pre @ mid @ post) = mid) \<and>
   (ext \<in> set (allowed_extensions s) \<longleftrightarrow>
      (\<exists>ps l core r. ps \<noteq> [] \<and> list_all comma_free ps \<and> join_comma ps = s \<and>
         l @ core @ r \<in> set ps \<and> blank l \<and> blank r \<and> trimmed core \<and> core \<noteq> [] \<and>
         ext = lower core)) \<and>
   (environ w ''ALLOWED_EXTENSIONS'' = None \<longrightarrow> getenv_default w ''ALLOWED_EXTENSIONS'' = []) \<and>
   (blank_configuration (getenv_default w ''ALLOWED_EXTENSIONS'') \<longrightarrow>
      allowed_extensions (getenv_default w ''ALLOWED_EXTENSIONS'') = [] \<and>
      filter is_upload (new_calls w (snd (download_attachments b64 gmail query folder w))) = [] \<and>
      drive_files (snd (download_attachments b64 gmail query folder w)) = drive_files w)"
proof -
  have empty: "allowed_extensions (getenv_default w ''ALLOWED_EXTENSIONS'') = []"
    if "blank_configuration (getenv_default w ''ALLOWED_EXTENSIONS'')"
    using that unfolding blank_configuration_def by (rule allowed_extensions_blank)
  have quiet: "blank_configuration (getenv_default w ''ALLOWED_EXTENSIONS'') \<longrightarrow>
      allowed_extensions (getenv_default w ''ALLOWED_EXTENSIONS'') = [] \<and>
      filter is_upload (new_calls w (snd (download_attachments b64 gmail query folder w))) = [] \<and>
      drive_files (snd (download_attachments b64 gmail query folder w)) = drive_files w"
    using empty download_attachments_none_allowed [of w b64 gmail query folder] by auto
  have unset: "environ w ''ALLOWED_EXTENSIONS'' = None \<longrightarrow> getenv_default w ''ALLOWED_EXTENSIONS'' = []"
    by (simp add: getenv_default_def)
  have round: "ps \<noteq> [] \<and> list_all comma_free ps \<longrightarrow> split_comma (join_comma ps) = ps"
    using split_join_comma by blast
  have pad: "blank pre \<and> blank post \<and> trimmed mid \<longrightarrow> strip (pre @ mid @ post) = mid"
    using strip_of_padding by blast
  show ?thesis
    using allowed_extensions_refines [of s] join_split_comma [of s] split_comma_comma_free [of s]
      round strip_is_trimmed_core [of s] pad allowed_extensions_member [of ext s] unset quiet
    by (intro conjI)
qed

theorem allowed_extensions_from_configuration_witness:
  "blank_configuration (getenv_default (demo_world [(''ALLOWED_EXTENSIONS'', '' , ,'')]) ''ALLOWED_EXTENSIONS'') \<and>
   environ (demo_world []) ''ALLOWED_EXTENSIONS'' = None \<and>
   getenv_default (demo_world []) ''ALLOWED_EXTENSIONS'' = [] \<and>
   allowed_extensions (getenv_default (demo_world [(''ALLOWED_EXTENSIONS'', '' , ,'')]) ''ALLOWED_EXTENSIONS'') = [] \<and>
   filter is_upload (new_calls (demo_world [(''ALLOWED_EXTENSIONS'', '' , ,'')])
     (snd (download_attachments demo_b64 demo_gmail ''has:attachment'' ''id0''
             (demo_world [(''ALLOWED_EXTENSIONS'', '' , ,'')])))) = [] \<and>
   join_comma [''.pdf'', '' .JPG''] = ''.pdf, .JPG'' \<and>
   list_all comma_free [''.pdf'', '' .JPG''] \<and>
   split_comma ''.pdf, .JPG'' = [''.pdf'', '' .JPG''] \<and>
   blank '' '' \<and> trimmed ''.JPG'' \<and>
   strip '' .JPG'' = ''.JPG'' \<and>
   ''.jpg'' \<in> set (allowed_extensions ''.pdf, .JPG'') \<and>
   allowed_extensions ''.pdf, .JPG,, .Tar.GZ '' = [''.pdf'', ''.jpg'', ''.tar.gz'']"
proof -
  have blank: "blank_configuration (getenv_default (demo_world [(''ALLOWED_EXTENSIONS'', '' , ,'')]) ''ALLOWED_EXTENSIONS'')"
    by code_simp
  have unset: "environ (demo_world []) ''ALLOWED_EXTENSIONS'' = None"
    by (simp add: demo_world_def)
  have pieces: "join_comma [''.pdf'', '' .JPG''] = ''.pdf, .JPG''"
    "list_all comma_free [''.pdf'', '' .JPG'']"
    by (simp_all add: comma_free_def)
  have pad: "blank '' ''" "blank []" "trimmed ''.JPG''"
    by code_simp+
  have low: "lower ''.JPG'' = ''.jpg''" by code_simp
  have derived: "allowed_extensions ''.pdf, .JPG,, .Tar.GZ '' = [''.pdf'', ''.jpg'', ''.tar.gz'']"
    by code_simp
  note run = allowed_extensions_from_configuration
        [where w = "demo_world [(''ALLOWED_EXTENSIONS'', '' , ,'')]" and ?b64.0 = demo_b64
           and gmail = demo_gmail and query = "''has:attachment''" and folder = "''id0''"
           and s = "''.pdf, .JPG''" and ps = "[''.pdf'', '' .JPG'']" and ext = "''.jpg''"
           and pre = "'' ''" and mid = "''.JPG''" and post = "[]"]
  note rest3 = run [THEN conjunct2, THEN conjunct2, THEN conjunct2]
  note rest5 = rest3 [THEN conjunct2, THEN conjunct2]
  note rest7 = rest5 [THEN conjunct2, THEN conjunct2]
  have "split_comma (join_comma [''.pdf'', '' .JPG'']) = [''.pdf'', '' .JPG'']"
    using rest3 [THEN conjunct1] pieces(2) by simp
  then have split: "split_comma ''.pdf, .JPG'' = [''.pdf'', '' .JPG'']"
    unfolding pieces(1) .
  have "strip ('' '' @ ''.JPG'' @ []) = ''.JPG''"
    using rest5 [THEN conjunct1] pad by simp
  then have trim: "strip '' .JPG'' = ''.JPG''" by simp
  have member: "''.jpg'' \<in> set (allowed_extensions ''.pdf, .JPG'')"
    unfolding rest5 [THEN conjunct2, THEN conjunct1]
    by (rule exI [of _ "[''.pdf'', '' .JPG'']"], rule exI [of _ "'' ''"],
        rule exI [of _ "''.JPG''"], rule exI [of _ "[]"])
       (use pieces pad low in simp)
  have quiet: "allowed_extensions (getenv_default (demo_world [(''ALLOWED_EXTENSIONS'', '' , ,'')]) ''ALLOWED_EXTENSIONS'') = []"
    "filter is_upload (new_calls (demo_world [(''ALLOWED_EXTENSIONS'', '' , ,'')])
     (snd (download_attachments demo_b64 demo_gmail ''has:attachment'' ''id0''
             (demo_world [(''ALLOWED_EXTENSIONS'', '' , ,'')])))) = []"
    using rest7 [THEN conjunct2] blank by blast+
  have empty: "getenv_default (demo_world []) ''ALLOWED_EXTENSIONS'' = []"
    using allowed_extensions_from_configuration [where w = "demo_world []"] unset by blast
  show ?thesis
    by (intro conjI) (fact blank unset empty quiet pieces split pad trim member derived)+
qed

end
